theory Spec2Isabelle
  imports Main "HOL-Library.Monad_Syntax"
begin

section \<open>JavaScript strings\<close>

text \<open>
  A JavaScript string is a sequence of UTF-16 code units; a code unit is modelled by its
  number. \<open>js\<close> embeds a literal of ASCII characters. The characters that the
  patterns of the code name, by their code units: \<open>+\<close> 43, \<open>-\<close> 45, \<open>.\<close> 46,
  \<open>0\<close> to \<open>9\<close> 48 to 57, \<open>:\<close> 58, \<open>@\<close> 64, \<open>A\<close> to \<open>Z\<close> 65 to 90
  (\<open>T\<close> 84), \<open>a\<close> to \<open>z\<close> 97 to 122.
\<close>

type_synonym jsstring = "nat list"

definition js :: "string \<Rightarrow> jsstring" where
  "js s = map of_char s"

text \<open>
  The characters that \<open>String.prototype.trim\<close> strips and that \<open>\s\<close> matches:
  WhiteSpace and LineTerminator of ECMAScript (TAB, LF, VT, FF, CR, SP, NBSP, U+1680,
  U+2000 to U+200A, U+2028, U+2029, U+202F, U+205F, U+3000, U+FEFF).
\<close>

definition isWhiteSpace :: "nat \<Rightarrow> bool" where
  "isWhiteSpace c =
     (c = 9 \<or> c = 10 \<or> c = 11 \<or> c = 12 \<or> c = 13 \<or> c = 32 \<or> c = 160 \<or> c = 5760 \<or>
      (8192 \<le> c \<and> c \<le> 8202) \<or> c = 8232 \<or> c = 8233 \<or> c = 8239 \<or> c = 8287 \<or>
      c = 12288 \<or> c = 65279)"

text \<open>\<open>\d\<close>: the ASCII digits 0 to 9.\<close>

definition isDigit :: "nat \<Rightarrow> bool" where
  "isDigit c = (48 \<le> c \<and> c \<le> 57)"

definition trim :: "jsstring \<Rightarrow> jsstring" where
  "trim s = rev (dropWhile isWhiteSpace (rev (dropWhile isWhiteSpace s)))"

text \<open>\<open>Number(s)\<close> for a string of decimal digits (the only strings the code converts).\<close>

definition NumberOfDigits :: "jsstring \<Rightarrow> int" where
  "NumberOfDigits s = foldl (\<lambda>n c. 10 * n + (int c - 48)) 0 s"

text \<open>\<open>Number.prototype.toString\<close> for an integer: its decimal digits, with a sign.\<close>

fun decimal :: "nat \<Rightarrow> jsstring" where
  "decimal n = (if n < 10 then [48 + n] else decimal (n div 10) @ [48 + n mod 10])"

declare decimal.simps [simp del]

definition toString :: "int \<Rightarrow> jsstring" where
  "toString i = (if i < 0 then 45 # decimal (nat (- i)) else decimal (nat i))"

text \<open>\<open>s.padStart(n, c)\<close> for a pad string of the single code unit \<open>c\<close>.\<close>

definition padStart :: "nat \<Rightarrow> nat \<Rightarrow> jsstring \<Rightarrow> jsstring" where
  "padStart n c s = replicate (n - length s) c @ s"

section \<open>Errors\<close>

text \<open>
  Every \<open>throw new Error(...)\<close> of the code, by its message:
  \<^item> \<open>FieldRequired f\<close>: Field "f" is required;
  \<^item> \<open>FieldNotArray f\<close>: Field "f" must be a non-empty array;
  \<^item> \<open>FieldBadItems f\<close>: Field "f" must contain only non-empty strings;
  \<^item> \<open>InvalidEventDate\<close>: Invalid event date;
  \<^item> \<open>InvalidTimeFormat\<close>: Invalid event time format (expected HH:mm);
  \<^item> \<open>InvalidTimeValue\<close>: Invalid event time value;
  \<^item> \<open>InvalidEmail\<close>: Invalid email address;
  \<^item> \<open>EventMissing\<close>: Referenced event does not exist;
  \<^item> \<open>ConnectFailed n\<close>: the rejection \<open>n\<close> of a connection attempt;
  \<^item> \<open>LookupFailed n\<close>: the rejection \<open>n\<close> of a lookup in the database.
\<close>

datatype error =
    FieldRequired string
  | FieldNotArray string
  | FieldBadItems string
  | InvalidEventDate
  | InvalidTimeFormat
  | InvalidTimeValue
  | InvalidEmail
  | EventMissing
  | ConnectFailed nat
  | LookupFailed nat

section \<open>normalizeTime\<close>

text \<open>
  The match of \<open>/^(\d{1,2}):(\d{2})(?::\d{2})?$/\<close>, piece by piece.
  \<open>digits n s\<close> is \<open>\d{n}\<close> at the start of \<open>s\<close>: the digits and the rest.
\<close>

definition digits :: "nat \<Rightarrow> jsstring \<Rightarrow> (jsstring \<times> jsstring) option" where
  "digits n s =
     (if n \<le> length s \<and> list_all isDigit (take n s) then Some (take n s, drop n s) else None)"

text \<open>\<open>(?::\d{2})?$\<close>: the optional seconds, then the end of the input.\<close>

definition secondsThenEnd :: "jsstring \<Rightarrow> bool" where
  "secondsThenEnd s =
     ((case s of
         [] \<Rightarrow> False
       | c # r \<Rightarrow> c = 58 \<and> (case digits 2 r of None \<Rightarrow> False | Some (ss, r') \<Rightarrow> r' = []))
      \<or> s = [])"

text \<open>\<open>:(\d{2})(?::\d{2})?$\<close>: the second group when the rest of the pattern matches.\<close>

definition minutesThenEnd :: "jsstring \<Rightarrow> jsstring option" where
  "minutesThenEnd s =
     (case s of
        [] \<Rightarrow> None
      | c # r \<Rightarrow>
          if c = 58 then
            (case digits 2 r of
               None \<Rightarrow> None
             | Some (mm, r') \<Rightarrow> if secondsThenEnd r' then Some mm else None)
          else None)"

text \<open>The whole pattern with \<open>n\<close> digits in the first group.\<close>

definition hoursThen :: "nat \<Rightarrow> jsstring \<Rightarrow> (jsstring \<times> jsstring) option" where
  "hoursThen n s =
     (case digits n s of
        None \<Rightarrow> None
      | Some (hh, r) \<Rightarrow> (case minutesThenEnd r of None \<Rightarrow> None | Some mm \<Rightarrow> Some (hh, mm)))"

text \<open>\<open>\d{1,2}\<close> is greedy: two digits first, one digit when that fails.\<close>

definition timeRegex_match :: "jsstring \<Rightarrow> (jsstring \<times> jsstring) option" where
  "timeRegex_match s = (case hoursThen 2 s of Some m \<Rightarrow> Some m | None \<Rightarrow> hoursThen 1 s)"

definition normalizeTime :: "jsstring \<Rightarrow> error + jsstring" where
  "normalizeTime v =
     (let trimmed = trim v in
      case timeRegex_match trimmed of
        None \<Rightarrow> Inl InvalidTimeFormat
      | Some (g1, g2) \<Rightarrow>
          (let hours = NumberOfDigits g1; minutes = NumberOfDigits g2 in
           if hours < 0 \<or> hours > 23 \<or> minutes < 0 \<or> minutes > 59 then Inl InvalidTimeValue
           else
             (let hh = padStart 2 48 (toString hours); mm = padStart 2 48 (toString minutes)
              in Inr (hh @ [58] @ mm))))"


text \<open>
  The shapes \<open>H:MM\<close> and \<open>HH:MM[:SS]\<close> in the words of the specification: one or two
  digits, a colon, two digits, and optionally a colon and two more digits.
\<close>

definition timeShape :: "jsstring \<Rightarrow> bool" where
  "timeShape s =
     (\<exists>h m t. s = h @ 58 # m @ t \<and> (length h = 1 \<or> length h = 2) \<and> list_all isDigit h \<and>
        length m = 2 \<and> list_all isDigit m \<and>
        (t = [] \<or> (\<exists>x. t = 58 # x \<and> length x = 2 \<and> list_all isDigit x)))"

text \<open>The hour component: what stands before the first colon; the minute component: the
  two characters after it.\<close>

definition hourComponent :: "jsstring \<Rightarrow> int" where
  "hourComponent s = NumberOfDigits (takeWhile (\<lambda>c. c \<noteq> 58) s)"

definition minuteComponent :: "jsstring \<Rightarrow> int" where
  "minuteComponent s = NumberOfDigits (take 2 (drop 1 (dropWhile (\<lambda>c. c \<noteq> 58) s)))"

text \<open>A number from 0 to 99 written with two digits, zero-padded.\<close>

definition twoDigits :: "int \<Rightarrow> jsstring" where
  "twoDigits n = [48 + nat n div 10, 48 + nat n mod 10]"

section \<open>The runtime\<close>

text \<open>
  What the JavaScript engine decides and the code cannot see:
  \<^item> \<open>unicodeLower\<close>: \<open>String.prototype.toLowerCase\<close> on a string that has a code unit
    outside ASCII (the Unicode case mappings);
  \<^item> \<open>dateParseOther\<close>: \<open>Date.parse\<close> on a string outside the two forms modelled below
    (the other forms of the ECMAScript format, local times, and the formats an engine
    accepts of its own); \<open>None\<close> is NaN.
\<close>

record runtime =
  unicodeLower :: "jsstring \<Rightarrow> jsstring"
  dateParseOther :: "jsstring \<Rightarrow> int option"

text \<open>A runtime for the examples: neither function is asked on them.\<close>

definition plainRuntime :: runtime where
  "plainRuntime = \<lparr>unicodeLower = (\<lambda>s. s), dateParseOther = (\<lambda>s. None)\<rparr>"

section \<open>generateSlug\<close>

definition asciiLower :: "nat \<Rightarrow> nat" where
  "asciiLower c = (if 65 \<le> c \<and> c \<le> 90 then c + 32 else c)"

text \<open>On a string of ASCII characters \<open>toLowerCase\<close> maps A-Z to a-z and nothing else.\<close>

definition toLowerCase :: "runtime \<Rightarrow> jsstring \<Rightarrow> jsstring" where
  "toLowerCase rt s = (if list_all (\<lambda>c. c < 128) s then map asciiLower s else unicodeLower rt s)"

text \<open>The class \<open>[a-z0-9\s-]\<close>: what \<open>replace(/[^a-z0-9\s-]/g, "")\<close> keeps.\<close>

definition isLowerAlnum :: "nat \<Rightarrow> bool" where
  "isLowerAlnum c = ((97 \<le> c \<and> c \<le> 122) \<or> isDigit c)"

definition slugKeeps :: "nat \<Rightarrow> bool" where
  "slugKeeps c = (isLowerAlnum c \<or> isWhiteSpace c \<or> c = 45)"

text \<open>
  \<open>s.replace(/X+/g, "-")\<close> for a character class \<open>X\<close>: every maximal run of characters of
  the class becomes one dash.
\<close>

function replaceRuns :: "(nat \<Rightarrow> bool) \<Rightarrow> jsstring \<Rightarrow> jsstring" where
  "replaceRuns X [] = []"
| "replaceRuns X (c # cs) =
     (if X c then 45 # replaceRuns X (dropWhile X cs) else c # replaceRuns X cs)"
  by pat_completeness auto
termination
  by (relation "measure (\<lambda>(X, s). length s)") (auto simp: length_dropWhile_le less_Suc_eq_le)

definition generateSlug :: "runtime \<Rightarrow> jsstring \<Rightarrow> jsstring" where
  "generateSlug rt title =
     replaceRuns (\<lambda>c. c = 45)
       (replaceRuns isWhiteSpace
          (filter slugKeeps (trim (toLowerCase rt title))))"






section \<open>normalizeDate\<close>

text \<open>
  Days since 1970-01-01 of a date of the proleptic Gregorian calendar (the calendar of
  ECMAScript's time values), and back. In between, a year starts on March 1, so that
  the leap day is its last day: \<open>marchYear\<close> is the year that starts in March,
  \<open>dayOfMarchYear\<close> the day in it, from 0.
\<close>

definition marchYear :: "int \<Rightarrow> int \<Rightarrow> int" where
  "marchYear y m = (if m \<le> 2 then y - 1 else y)"

definition dayOfMarchYear :: "int \<Rightarrow> int \<Rightarrow> int" where
  "dayOfMarchYear m d = (153 * ((m + 9) mod 12) + 2) div 5 + d - 1"

text \<open>The days from 0000-03-01 to March 1 of the year \<open>y\<close>.\<close>

definition daysBeforeMarchYear :: "int \<Rightarrow> int" where
  "daysBeforeMarchYear y = 365 * y + y div 4 - y div 100 + y div 400"

definition daysFromCivil :: "int \<Rightarrow> int \<Rightarrow> int \<Rightarrow> int" where
  "daysFromCivil y m d = daysBeforeMarchYear (marchYear y m) + dayOfMarchYear m d - 719468"

text \<open>
  Back: the day of the era of 400 years (146097 days), the year of the era, the day of
  that year, the month from March, the day of the month.
\<close>

definition eraDay :: "int \<Rightarrow> int" where
  "eraDay z = (z + 719468) mod 146097"

definition eraYear :: "int \<Rightarrow> int" where
  "eraYear doe = (doe - doe div 1460 + doe div 36524 - doe div 146096) div 365"

definition yearDay :: "int \<Rightarrow> int" where
  "yearDay doe = doe - (365 * eraYear doe + eraYear doe div 4 - eraYear doe div 100)"

definition monthIndex :: "int \<Rightarrow> int" where
  "monthIndex doy = (5 * doy + 2) div 153"

definition civilMonth :: "int \<Rightarrow> int" where
  "civilMonth z =
     (if monthIndex (yearDay (eraDay z)) < 10 then monthIndex (yearDay (eraDay z)) + 3
      else monthIndex (yearDay (eraDay z)) - 9)"

definition civilDay :: "int \<Rightarrow> int" where
  "civilDay z = yearDay (eraDay z) - (153 * monthIndex (yearDay (eraDay z)) + 2) div 5 + 1"

definition civilYear :: "int \<Rightarrow> int" where
  "civilYear z =
     eraYear (eraDay z) + (z + 719468) div 146097 * 400 + (if civilMonth z \<le> 2 then 1 else 0)"

definition civilFromDays :: "int \<Rightarrow> int \<times> int \<times> int" where
  "civilFromDays z = (civilYear z, civilMonth z, civilDay z)"

definition isLeapYear :: "int \<Rightarrow> bool" where
  "isLeapYear y = (y mod 4 = 0 \<and> (y mod 100 \<noteq> 0 \<or> y mod 400 = 0))"

definition daysInMonth :: "int \<Rightarrow> int \<Rightarrow> int" where
  "daysInMonth y m =
     (if m = 2 then (if isLeapYear y then 29 else 28)
      else if m = 4 \<or> m = 6 \<or> m = 9 \<or> m = 11 then 30 else 31)"

definition msPerDay :: int where
  "msPerDay = 86400000"

definition timeClip :: "int \<Rightarrow> int option" where
  "timeClip t = (if \<bar>t\<bar> \<le> 8640000000000000 then Some t else None)"

text \<open>A literal character at the start of \<open>s\<close>: the rest of \<open>s\<close>.\<close>

definition lit :: "nat \<Rightarrow> jsstring \<Rightarrow> jsstring option" where
  "lit x s = (case s of [] \<Rightarrow> None | c # r \<Rightarrow> if c = x then Some r else None)"

text \<open>\<open>n\<close> digits at the start of \<open>s\<close>: their value and the rest of \<open>s\<close>.\<close>

definition number :: "nat \<Rightarrow> jsstring \<Rightarrow> (int \<times> jsstring) option" where
  "number n s = (case digits n s of None \<Rightarrow> None | Some (ds, r) \<Rightarrow> Some (NumberOfDigits ds, r))"

text \<open>
  The year of a date string: \<open>YYYY\<close>, or an expanded year \<open>+YYYYYY\<close> or \<open>-YYYYYY\<close>
  (\<open>-000000\<close> is not a year).
\<close>

definition parseYear :: "jsstring \<Rightarrow> (int \<times> jsstring) option" where
  "parseYear s =
     (case s of
        [] \<Rightarrow> None
      | c # r \<Rightarrow>
          if c = 43 then number 6 r
          else if c = 45 then
            (case number 6 r of
               None \<Rightarrow> None
             | Some (y, r') \<Rightarrow> if y = 0 then None else Some (- y, r'))
          else number 4 s)"

text \<open>
  The time of day in milliseconds: nothing (a date alone is midnight UTC), or
  \<open>THH:mm:ssZ\<close>.
\<close>

definition parseTimeUTC :: "jsstring \<Rightarrow> int option" where
  "parseTimeUTC s =
     (if s = [] then Some 0
      else do {
        r1 \<leftarrow> lit 84 s;
        (h, r2) \<leftarrow> number 2 r1;
        r3 \<leftarrow> lit 58 r2;
        (mi, r4) \<leftarrow> number 2 r3;
        r5 \<leftarrow> lit 58 r4;
        (se, r6) \<leftarrow> number 2 r5;
        if r6 = [90] \<and> h \<le> 23 \<and> mi \<le> 59 \<and> se \<le> 59
        then Some (h * 3600000 + mi * 60000 + se * 1000)
        else None
      })"

text \<open>
  \<open>Date.parse\<close> on the forms \<open>YYYY-MM-DD\<close> and \<open>YYYY-MM-DDTHH:mm:ssZ\<close> of the ECMAScript
  date-time format, the year expanded or not, every field in its range: the time value
  in milliseconds since 1970-01-01T00:00:00Z. \<open>None\<close>: the string is of neither form.
\<close>

definition dateParseUTC :: "jsstring \<Rightarrow> int option" where
  "dateParseUTC s =
     do {
       (y, r1) \<leftarrow> parseYear s;
       r2 \<leftarrow> lit 45 r1;
       (m, r3) \<leftarrow> number 2 r2;
       r4 \<leftarrow> lit 45 r3;
       (d, r5) \<leftarrow> number 2 r4;
       ms \<leftarrow> parseTimeUTC r5;
       if 1 \<le> m \<and> m \<le> 12 \<and> 1 \<le> d \<and> d \<le> daysInMonth y m
       then Some (daysFromCivil y m d * msPerDay + ms)
       else None
     }"

definition dateParse :: "runtime \<Rightarrow> jsstring \<Rightarrow> int option" where
  "dateParse rt s = (case dateParseUTC s of Some t \<Rightarrow> Some t | None \<Rightarrow> dateParseOther rt s)"

text \<open>
  \<open>new Date(value)\<close> for a string: the time value of the date, \<open>None\<close> for an invalid date
  (\<open>getTime()\<close> is NaN). A time beyond 8.64e15 ms from the epoch is no date.
\<close>

definition newDate :: "runtime \<Rightarrow> jsstring \<Rightarrow> int option" where
  "newDate rt v = (case dateParse rt v of None \<Rightarrow> None | Some t \<Rightarrow> timeClip t)"

text \<open>An integer padded with zeros to \<open>n\<close> digits.\<close>

definition zeroPad :: "nat \<Rightarrow> int \<Rightarrow> jsstring" where
  "zeroPad n i = padStart n 48 (toString i)"

text \<open>
  \<open>Date.prototype.toISOString\<close>: \<open>YYYY-MM-DDTHH:mm:ss.sssZ\<close> in UTC; a year outside 0 to
  9999 is written with a sign and six digits.
\<close>

definition yearString :: "int \<Rightarrow> jsstring" where
  "yearString y =
     (if 0 \<le> y \<and> y \<le> 9999 then zeroPad 4 y
      else (if y < 0 then 45 else 43) # zeroPad 6 \<bar>y\<bar>)"

definition dateString :: "int \<times> int \<times> int \<Rightarrow> jsstring" where
  "dateString ymd =
     (case ymd of (y, m, d) \<Rightarrow> yearString y @ [45] @ zeroPad 2 m @ [45] @ zeroPad 2 d)"

definition timeString :: "int \<Rightarrow> jsstring" where
  "timeString ms =
     zeroPad 2 (ms div 3600000) @ [58] @ zeroPad 2 (ms mod 3600000 div 60000) @ [58] @
     zeroPad 2 (ms mod 60000 div 1000) @ [46] @ zeroPad 3 (ms mod 1000)"

definition toISOString :: "int \<Rightarrow> jsstring" where
  "toISOString t =
     dateString (civilFromDays (t div msPerDay)) @ [84] @ timeString (t mod msPerDay) @ [90]"

text \<open>\<open>s.split(c)[0]\<close>: what stands before the first \<open>c\<close>, all of \<open>s\<close> when it has none.\<close>

definition splitFirst :: "nat \<Rightarrow> jsstring \<Rightarrow> jsstring" where
  "splitFirst c s = takeWhile (\<lambda>x. x \<noteq> c) s"

definition normalizeDate :: "runtime \<Rightarrow> jsstring \<Rightarrow> error + jsstring" where
  "normalizeDate rt v =
     (case newDate rt v of
        None \<Rightarrow> Inl InvalidEventDate
      | Some t \<Rightarrow> Inr (splitFirst 84 (toISOString t)))"

text \<open>The form \<open>YYYY-MM-DD\<close>: four digits, a dash, two digits, a dash, two digits.\<close>

definition isoDateShape :: "jsstring \<Rightarrow> bool" where
  "isoDateShape r =
     (case r of
        [y1, y2, y3, y4, a, m1, m2, b, d1, d2] \<Rightarrow>
          list_all isDigit [y1, y2, y3, y4, m1, m2, d1, d2] \<and> a = 45 \<and> b = 45
      | _ \<Rightarrow> False)"

section \<open>The Event pre-save hook\<close>

text \<open>
  The values a field of a document holds: a schema of \<open>String\<close> and \<open>[String]\<close> paths
  casts every other value away before a hook runs.
\<close>

datatype jsvalue = Undefined | Null | Str jsstring | Arr "jsvalue list"

text \<open>
  A document: \<open>this[field]\<close> for every field name (\<open>Undefined\<close> where the document has no
  such field), and the paths for which \<open>this.isModified(path)\<close> holds.
\<close>

record eventDocument =
  props :: "string \<Rightarrow> jsvalue"
  modifiedPaths :: "string set"

definition requiredStringFields :: "string list" where
  "requiredStringFields =
     [''title'', ''description'', ''overview'', ''image'', ''venue'', ''location'', ''date'',
      ''time'', ''mode'', ''audience'', ''organizer'']"

definition requiredArrayFields :: "string list" where
  "requiredArrayFields = [''agenda'', ''tags'']"

text \<open>\<open>typeof value !== "string" || value.trim().length === 0\<close>\<close>

definition notNonEmptyString :: "jsvalue \<Rightarrow> bool" where
  "notNonEmptyString value = (case value of Str s \<Rightarrow> length (trim s) = 0 | _ \<Rightarrow> True)"

text \<open>The first loop: the error of the first field that fails, \<open>None\<close> when none does.\<close>

fun checkStringFields :: "(string \<Rightarrow> jsvalue) \<Rightarrow> string list \<Rightarrow> error option" where
  "checkStringFields this [] = None"
| "checkStringFields this (field # rest) =
     (if notNonEmptyString (this field) then Some (FieldRequired field)
      else checkStringFields this rest)"

text \<open>The second loop.\<close>

fun checkArrayFields :: "(string \<Rightarrow> jsvalue) \<Rightarrow> string list \<Rightarrow> error option" where
  "checkArrayFields this [] = None"
| "checkArrayFields this (field # rest) =
     (case this field of
        Arr items \<Rightarrow>
          if length items = 0 then Some (FieldNotArray field)
          else if list_ex notNonEmptyString items then Some (FieldBadItems field)
          else checkArrayFields this rest
      | _ \<Rightarrow> Some (FieldNotArray field))"

text \<open>\<open>!value\<close> for a field: undefined, null and the empty string are falsy.\<close>

definition falsy :: "jsvalue \<Rightarrow> bool" where
  "falsy value = (case value of Undefined \<Rightarrow> True | Null \<Rightarrow> True | Str s \<Rightarrow> s = [] | Arr items \<Rightarrow> False)"

text \<open>\<open>this.isModified("title") || !this.slug\<close>\<close>

definition regeneratesSlug :: "eventDocument \<Rightarrow> bool" where
  "regeneratesSlug this = (''title'' \<in> modifiedPaths this \<or> falsy (props this ''slug''))"

text \<open>
  The string of a field that the first loop has checked. (The loop has thrown for every
  other value; the model repeats its error there.)
\<close>

definition stringField :: "eventDocument \<Rightarrow> string \<Rightarrow> error + jsstring" where
  "stringField this field =
     (case props this field of Str s \<Rightarrow> Inr s | _ \<Rightarrow> Inl (FieldRequired field))"

definition setField :: "string \<Rightarrow> jsvalue \<Rightarrow> eventDocument \<Rightarrow> eventDocument" where
  "setField field value this = this\<lparr>props := (props this)(field := value)\<rparr>"

text \<open>
  The hook: \<open>Inl err\<close> is \<open>next(err)\<close>, \<open>Inr this'\<close> is \<open>next()\<close> with the document as the hook
  leaves it.
\<close>

definition event_preSave :: "runtime \<Rightarrow> eventDocument \<Rightarrow> error + eventDocument" where
  "event_preSave rt this =
     (case checkStringFields (props this) requiredStringFields of
        Some err \<Rightarrow> Inl err
      | None \<Rightarrow>
     (case checkArrayFields (props this) requiredArrayFields of
        Some err \<Rightarrow> Inl err
      | None \<Rightarrow>
     (case stringField this ''date'' of
        Inl err \<Rightarrow> Inl err
      | Inr date \<Rightarrow>
     (case normalizeDate rt date of
        Inl err \<Rightarrow> Inl err
      | Inr date' \<Rightarrow>
     (let this1 = setField ''date'' (Str date') this in
      case stringField this1 ''time'' of
        Inl err \<Rightarrow> Inl err
      | Inr time \<Rightarrow>
     (case normalizeTime time of
        Inl err \<Rightarrow> Inl err
      | Inr time' \<Rightarrow>
     (let this2 = setField ''time'' (Str time') this1 in
      if regeneratesSlug this2 then
        (case stringField this2 ''title'' of
           Inl err \<Rightarrow> Inl err
         | Inr title \<Rightarrow> Inr (setField ''slug'' (Str (generateSlug rt title)) this2))
      else Inr this2)))))))"

text \<open>
  An event whose title has no letter and no digit, with every other field valid, not
  saved yet.
\<close>

definition punctuationEvent :: eventDocument where
  "punctuationEvent =
     \<lparr>props = (\<lambda>field.
         if field = ''title'' then Str (js ''!!!'')
         else if field = ''date'' then Str (js ''2024-03-05'')
         else if field = ''time'' then Str (js ''09:05'')
         else if field = ''agenda'' \<or> field = ''tags'' then Arr [Str (js ''talks'')]
         else if field \<in> set requiredStringFields then Str (js ''x'')
         else Undefined),
      modifiedPaths = set requiredStringFields \<union> set requiredArrayFields\<rparr>"


text \<open>
  What the specification asks of a document: a field that must be a non-empty string and
  is not, or a field that must be a non-empty array of non-empty strings and is not.
\<close>

definition offendingField :: "(string \<Rightarrow> jsvalue) \<Rightarrow> string \<Rightarrow> bool" where
  "offendingField this field =
     ((field \<in> set requiredStringFields \<and>
         (case this field of Str s \<Rightarrow> trim s = [] | _ \<Rightarrow> True))
      \<or> (field \<in> set requiredArrayFields \<and>
         (case this field of
            Arr items \<Rightarrow> items = [] \<or> (\<exists>item \<in> set items. case item of Str s \<Rightarrow> trim s = [] | _ \<Rightarrow> True)
          | _ \<Rightarrow> True)))"

text \<open>The field an error names.\<close>

definition fieldOfError :: "error \<Rightarrow> string option" where
  "fieldOfError err =
     (case err of
        FieldRequired f \<Rightarrow> Some f
      | FieldNotArray f \<Rightarrow> Some f
      | FieldBadItems f \<Rightarrow> Some f
      | _ \<Rightarrow> None)"

section \<open>The connection cache\<close>

text \<open>
  A connection object by its identity. A promise is the attempt that made it: promise
  \<open>n\<close> is what the \<open>n\<close>-th call of \<open>mongoose.connect(...).then(...)\<close> returned.
\<close>

datatype connection = Connection nat

datatype settlement = Fulfilled connection | Rejected error

record cache =
  conn :: "connection option"
  promise :: "nat option"

text \<open>
  The process: \<open>global.mongoose\<close>, the number of connection attempts made so far, and
  how each promise has settled (\<open>None\<close> while it is pending).
\<close>

record process =
  cached :: cache
  attempts :: nat
  settled :: "nat \<Rightarrow> settlement option"

text \<open>
  \<open>connectToDatabase\<close> runs in two steps. The first runs to the \<open>await\<close>, or returns the
  cached connection at once.
\<close>

datatype progress = Returned connection | Awaiting nat

definition connectToDatabase :: "process \<Rightarrow> progress \<times> process" where
  "connectToDatabase p =
     (case conn (cached p) of
        Some c \<Rightarrow> (Returned c, p)
      | None \<Rightarrow>
          (case promise (cached p) of
             None \<Rightarrow>
               (Awaiting (attempts p),
                p\<lparr>cached := (cached p)\<lparr>promise := Some (attempts p)\<rparr>,
                  attempts := attempts p + 1\<rparr>)
           | Some n \<Rightarrow> (Awaiting n, p)))"

text \<open>
  The second step runs once the awaited promise has settled: the \<open>try\<close> block stores the
  connection and the function returns it, or the \<open>catch\<close> block clears the cached
  promise and throws the error again. \<open>None\<close>: the promise is still pending.
\<close>

definition resume :: "nat \<Rightarrow> process \<Rightarrow> ((error + connection) \<times> process) option" where
  "resume n p =
     (case settled p n of
        None \<Rightarrow> None
      | Some (Fulfilled c) \<Rightarrow> Some (Inr c, p\<lparr>cached := (cached p)\<lparr>conn := Some c\<rparr>\<rparr>)
      | Some (Rejected err) \<Rightarrow> Some (Inl err, p\<lparr>cached := (cached p)\<lparr>promise := None\<rparr>\<rparr>))"

text \<open>The database settles a pending promise, once.\<close>

definition settle :: "nat \<Rightarrow> settlement \<Rightarrow> process \<Rightarrow> process" where
  "settle n outcome p =
     (if n < attempts p \<and> settled p n = None then p\<lparr>settled := (settled p)(n := Some outcome)\<rparr>
      else p)"

text \<open>\<open>k\<close> calls one after the other: what each returned, and the process after them.\<close>

fun calls :: "nat \<Rightarrow> process \<Rightarrow> progress list \<times> process" where
  "calls 0 p = ([], p)"
| "calls (Suc k) p =
     (let (r, p') = connectToDatabase p; (rs, p'') = calls k p' in (r # rs, p''))"

text \<open>The process when the module is loaded: \<open>{ conn: null, promise: null }\<close>.\<close>

definition initialProcess :: process where
  "initialProcess =
     \<lparr>cached = \<lparr>conn = None, promise = None\<rparr>, attempts = 0, settled = (\<lambda>n. None)\<rparr>"

section \<open>The Booking pre-save hook\<close>

text \<open>
  \<open>/^[^\s@]+@[^\s@]+\.[^\s@]+$/\<close>, piece by piece: each piece takes the test of what
  follows it. \<open>plusThen X k\<close> is \<open>X+\<close> followed by \<open>k\<close>: one character of the class, then
  more of them (tried first) or what follows.
\<close>

fun plusThen :: "(nat \<Rightarrow> bool) \<Rightarrow> (jsstring \<Rightarrow> bool) \<Rightarrow> jsstring \<Rightarrow> bool" where
  "plusThen X k [] = False"
| "plusThen X k (c # cs) = (X c \<and> (plusThen X k cs \<or> k cs))"

definition charThen :: "nat \<Rightarrow> (jsstring \<Rightarrow> bool) \<Rightarrow> jsstring \<Rightarrow> bool" where
  "charThen x k s = (case s of [] \<Rightarrow> False | c # cs \<Rightarrow> c = x \<and> k cs)"

definition atEnd :: "jsstring \<Rightarrow> bool" where
  "atEnd s = (s = [])"

text \<open>The class \<open>[^\s@]\<close>.\<close>

definition notSpaceAt :: "nat \<Rightarrow> bool" where
  "notSpaceAt c = (\<not> isWhiteSpace c \<and> c \<noteq> 64)"

definition emailRegex_test :: "jsstring \<Rightarrow> bool" where
  "emailRegex_test s =
     plusThen notSpaceAt
       (charThen 64 (plusThen notSpaceAt (charThen 46 (plusThen notSpaceAt atEnd)))) s"

record bookingDocument =
  eventId :: nat
  email :: jsstring

text \<open>
  The database as the hook meets it: the ids of the documents of the Event collection,
  and whether a lookup is answered (\<open>Some err\<close>: every lookup is rejected with \<open>err\<close>).
\<close>

record database =
  eventIds :: "nat set"
  lookupFailure :: "error option"

text \<open>
  \<open>await Event.exists({ _id: id })\<close>: a document or none (\<open>Inr\<close>, true for a document),
  or the error that the lookup is rejected with (\<open>Inl\<close>).
\<close>

definition Event_exists :: "database \<Rightarrow> nat \<Rightarrow> error + bool" where
  "Event_exists db i =
     (case lookupFailure db of Some err \<Rightarrow> Inl err | None \<Rightarrow> Inr (i \<in> eventIds db))"

text \<open>
  The hook: \<open>Some err\<close> is \<open>next(err)\<close>, \<open>None\<close> is \<open>next()\<close>. The \<open>catch\<close> block hands
  every error to \<open>next\<close>: the two that the hook throws, and the rejection of the lookup.
\<close>

definition booking_preSave :: "database \<Rightarrow> bookingDocument \<Rightarrow> error option" where
  "booking_preSave db this =
     (if \<not> emailRegex_test (email this) then Some InvalidEmail
      else
        (case Event_exists db (eventId this) of
           Inl err \<Rightarrow> Some err
         | Inr eventExists \<Rightarrow> if \<not> eventExists then Some EventMissing else None))"

text \<open>
  The \<open>email\<close> path of the schema has \<open>trim: true\<close> and \<open>lowercase: true\<close>: the document
  that the hook runs on holds the given string lowercased and trimmed.
\<close>

definition storedEmail :: "runtime \<Rightarrow> jsstring \<Rightarrow> jsstring" where
  "storedEmail rt given = trim (toLowerCase rt given)"

text \<open>
  The pattern \<open>local@domain.tld\<close> in the words of the specification: three non-empty
  parts without whitespace and without an at sign, the first two separated by the at
  sign, the last two by a dot.
\<close>

definition localAtDomainTld :: "jsstring \<Rightarrow> bool" where
  "localAtDomainTld s =
     (\<exists>l d t. s = l @ 64 # d @ 46 # t \<and> l \<noteq> [] \<and> d \<noteq> [] \<and> t \<noteq> [] \<and>
        list_all notSpaceAt l \<and> list_all notSpaceAt d \<and> list_all notSpaceAt t)"

section \<open>Proofs\<close>

lemma digits_Some:
  "digits n s = Some (h, r) \<longleftrightarrow> s = h @ r \<and> length h = n \<and> list_all isDigit h"
  by (auto simp: digits_def min_def)

lemma digits_None:
  "digits n s = None \<longleftrightarrow> \<not> (n \<le> length s \<and> list_all isDigit (take n s))"
  by (simp add: digits_def)

lemma secondsThenEnd_iff:
  "secondsThenEnd t \<longleftrightarrow> t = [] \<or> (\<exists>x. t = 58 # x \<and> length x = 2 \<and> list_all isDigit x)"
  by (cases t) (auto simp: secondsThenEnd_def digits_Some digits_None split: option.splits)

lemma minutesThenEnd_Some:
  "minutesThenEnd s = Some m \<longleftrightarrow>
     (\<exists>t. s = 58 # m @ t \<and> length m = 2 \<and> list_all isDigit m \<and> secondsThenEnd t)"
  by (cases s) (auto simp: minutesThenEnd_def digits_Some digits_None split: option.splits)

lemma hoursThen_Some:
  "hoursThen n s = Some (h, m) \<longleftrightarrow>
     (\<exists>t. s = h @ 58 # m @ t \<and> length h = n \<and> list_all isDigit h \<and> length m = 2 \<and>
        list_all isDigit m \<and> secondsThenEnd t)"
proof -
  have "minutesThenEnd r = None \<longleftrightarrow> (\<forall>m. minutesThenEnd r \<noteq> Some m)" for r
    by auto
  then show ?thesis
    by (auto simp: hoursThen_def digits_Some digits_None minutesThenEnd_Some split: option.splits)
qed

lemma colon_not_digit: "\<not> isDigit 58"
  by (simp add: isDigit_def)

lemma hoursThen_2_None:
  assumes "length h = 1" "s = h @ 58 # r"
  shows "hoursThen 2 s = None"
proof -
  from assms obtain a where "h = [a]" by (cases h) auto
  with assms have "take 2 s = [a, 58]" by simp
  then have "digits 2 s = None" by (simp add: digits_None colon_not_digit)
  then show ?thesis by (simp add: hoursThen_def)
qed

lemma timeRegex_match_Some:
  "timeRegex_match s = Some (h, m) \<longleftrightarrow>
     (\<exists>t. s = h @ 58 # m @ t \<and> (length h = 1 \<or> length h = 2) \<and> list_all isDigit h \<and>
        length m = 2 \<and> list_all isDigit m \<and> secondsThenEnd t)"
proof
  assume "timeRegex_match s = Some (h, m)"
  then have "hoursThen 2 s = Some (h, m) \<or> hoursThen 1 s = Some (h, m)"
    by (auto simp: timeRegex_match_def split: option.splits)
  then show "\<exists>t. s = h @ 58 # m @ t \<and> (length h = 1 \<or> length h = 2) \<and> list_all isDigit h \<and>
        length m = 2 \<and> list_all isDigit m \<and> secondsThenEnd t"
    by (auto simp: hoursThen_Some)
next
  assume "\<exists>t. s = h @ 58 # m @ t \<and> (length h = 1 \<or> length h = 2) \<and> list_all isDigit h \<and>
        length m = 2 \<and> list_all isDigit m \<and> secondsThenEnd t"
  then obtain t where t: "s = h @ 58 # m @ t" "length h = 1 \<or> length h = 2" "list_all isDigit h"
    "length m = 2" "list_all isDigit m" "secondsThenEnd t" by blast
  from t(2) show "timeRegex_match s = Some (h, m)"
  proof
    assume h1: "length h = 1"
    then have "hoursThen 2 s = None" using t(1) by (rule hoursThen_2_None)
    moreover have "hoursThen 1 s = Some (h, m)" using t h1 by (auto simp: hoursThen_Some)
    ultimately show ?thesis by (simp add: timeRegex_match_def)
  next
    assume "length h = 2"
    then have "hoursThen 2 s = Some (h, m)" using t by (auto simp: hoursThen_Some)
    then show ?thesis by (simp add: timeRegex_match_def)
  qed
qed

lemma takeWhile_digits_colon:
  "list_all isDigit h \<Longrightarrow> takeWhile (\<lambda>c. c \<noteq> 58) (h @ 58 # r) = h"
  by (induction h) (auto simp: colon_not_digit)

lemma dropWhile_digits_colon:
  "list_all isDigit h \<Longrightarrow> dropWhile (\<lambda>c. c \<noteq> 58) (h @ 58 # r) = 58 # r"
  by (induction h) (auto simp: colon_not_digit)

lemma timeRegex_match_shape:
  "timeRegex_match s =
     (if timeShape s
      then Some (takeWhile (\<lambda>c. c \<noteq> 58) s, take 2 (drop 1 (dropWhile (\<lambda>c. c \<noteq> 58) s)))
      else None)"
proof (cases "timeShape s")
  case True
  then obtain h m t where t: "s = h @ 58 # m @ t" "length h = 1 \<or> length h = 2"
    "list_all isDigit h" "length m = 2" "list_all isDigit m" "secondsThenEnd t"
    unfolding timeShape_def secondsThenEnd_iff by blast
  then have "timeRegex_match s = Some (h, m)"
    unfolding timeRegex_match_Some by blast
  moreover have "takeWhile (\<lambda>c. c \<noteq> 58) s = h"
    using t(1,3) by (simp add: takeWhile_digits_colon)
  moreover have "take 2 (drop 1 (dropWhile (\<lambda>c. c \<noteq> 58) s)) = m"
    using t(1,3,4) by (simp add: dropWhile_digits_colon)
  ultimately show ?thesis using True by simp
next
  case False
  have "timeRegex_match s = None"
  proof (cases "timeRegex_match s")
    case None
    then show ?thesis .
  next
    case (Some p)
    obtain h m where "p = (h, m)" by (cases p)
    with Some have "timeRegex_match s = Some (h, m)" by simp
    then have "timeShape s"
      unfolding timeShape_def timeRegex_match_Some secondsThenEnd_iff by blast
    with False show ?thesis by simp
  qed
  with False show ?thesis by simp
qed

lemma NumberOfDigits_1: "NumberOfDigits [a] = int a - 48"
  by (simp add: NumberOfDigits_def)

lemma NumberOfDigits_2: "NumberOfDigits [a, b] = 10 * (int a - 48) + (int b - 48)"
  by (simp add: NumberOfDigits_def)

lemma NumberOfDigits_nonneg:
  assumes "list_all isDigit s" "length s = 1 \<or> length s = 2"
  shows "0 \<le> NumberOfDigits s"
proof -
  from assms(2) consider a where "s = [a]" | a b where "s = [a, b]"
    by (cases s; cases "tl s") auto
  then show ?thesis
    using assms(1) by cases (auto simp: NumberOfDigits_1 NumberOfDigits_2 isDigit_def)
qed

lemma padStart_toString:
  assumes "0 \<le> n" "n \<le> 99"
  shows "padStart 2 48 (toString n) = twoDigits n"
proof (cases "n < 10")
  case True
  with assms have "decimal (nat n) = [48 + nat n]" by (simp add: decimal.simps)
  with assms True show ?thesis by (simp add: padStart_def toString_def twoDigits_def)
next
  case False
  with assms have "nat n div 10 < 10" by simp
  then have "decimal (nat n div 10) = [48 + nat n div 10]" by (simp add: decimal.simps)
  with False assms have "decimal (nat n) = [48 + nat n div 10, 48 + nat n mod 10]"
    by (subst decimal.simps) simp
  with assms show ?thesis by (simp add: padStart_def toString_def twoDigits_def)
qed

lemma normalizeTime_eq:
  "normalizeTime v =
     (if \<not> timeShape (trim v) then Inl InvalidTimeFormat
      else if hourComponent (trim v) > 23 \<or> minuteComponent (trim v) > 59
        then Inl InvalidTimeValue
      else Inr (twoDigits (hourComponent (trim v)) @ [58] @ twoDigits (minuteComponent (trim v))))"
proof (cases "timeShape (trim v)")
  case False
  then show ?thesis by (simp add: normalizeTime_def timeRegex_match_shape)
next
  case True
  then obtain h m t where t: "trim v = h @ 58 # m @ t" "length h = 1 \<or> length h = 2"
    "list_all isDigit h" "length m = 2" "list_all isDigit m"
    unfolding timeShape_def by blast
  have hc: "takeWhile (\<lambda>c. c \<noteq> 58) (trim v) = h"
    using t(1,3) by (simp add: takeWhile_digits_colon)
  have mc: "take 2 (drop 1 (dropWhile (\<lambda>c. c \<noteq> 58) (trim v))) = m"
    using t(1,3,4) by (simp add: dropWhile_digits_colon)
  have h0: "0 \<le> NumberOfDigits h" using t(2,3) by (simp add: NumberOfDigits_nonneg)
  have m0: "0 \<le> NumberOfDigits m" using t(4,5) by (simp add: NumberOfDigits_nonneg)
  show ?thesis
  proof (cases "NumberOfDigits h > 23 \<or> NumberOfDigits m > 59")
    case bad: True
    then show ?thesis
      using True hc mc
      by (auto simp: normalizeTime_def timeRegex_match_shape hourComponent_def minuteComponent_def)
  next
    case ok: False
    then have "padStart 2 48 (toString (NumberOfDigits h)) = twoDigits (NumberOfDigits h)"
      and "padStart 2 48 (toString (NumberOfDigits m)) = twoDigits (NumberOfDigits m)"
      using h0 m0 by (simp_all add: padStart_toString)
    then show ?thesis
      using True hc mc ok h0 m0
      by (simp add: normalizeTime_def timeRegex_match_shape hourComponent_def minuteComponent_def)
  qed
qed


lemma timeShape_match: "timeShape s \<longleftrightarrow> timeRegex_match s \<noteq> None"
  by (simp add: timeRegex_match_shape)

lemmas time_eval =
  normalizeTime_def js_def trim_def isWhiteSpace_def timeRegex_match_def hoursThen_def
  digits_def isDigit_def minutesThenEnd_def secondsThenEnd_def NumberOfDigits_def toString_def
  padStart_def decimal.simps

lemma digit_not_space: "isDigit c \<Longrightarrow> \<not> isWhiteSpace c"
  by (auto simp: isDigit_def isWhiteSpace_def)

lemma colon_not_space: "\<not> isWhiteSpace 58"
  by (simp add: isWhiteSpace_def)

lemma list_all_last: "list_all P xs \<Longrightarrow> xs \<noteq> [] \<Longrightarrow> P (last xs)"
  by (simp add: list_all_iff)

lemma trim_id:
  assumes "s \<noteq> []" "\<not> isWhiteSpace (hd s)" "\<not> isWhiteSpace (last s)"
  shows "trim s = s"
proof -
  from assms(1,2) have "dropWhile isWhiteSpace s = s"
    by (cases s) auto
  moreover from assms(1,3) have "dropWhile isWhiteSpace (rev s) = rev s"
    by (cases "rev s") (auto simp: hd_rev)
  ultimately show ?thesis by (simp add: trim_def)
qed

lemma twoDigits_1: "isDigit a \<Longrightarrow> twoDigits (NumberOfDigits [a]) = [48, a]"
  by (auto simp: twoDigits_def NumberOfDigits_1 isDigit_def)

lemma twoDigits_2:
  assumes "isDigit a" "isDigit b"
  shows "twoDigits (NumberOfDigits [a, b]) = [a, b]"
proof -
  define x y where "x = a - 48" and "y = b - 48"
  with assms have xy: "a = 48 + x" "b = 48 + y" "x \<le> 9" "y \<le> 9"
    by (auto simp: isDigit_def)
  then have "nat (NumberOfDigits [a, b]) = 10 * x + y"
    by (simp add: NumberOfDigits_2)
  with xy show ?thesis by (simp add: twoDigits_def)
qed

text \<open>What \<open>normalizeTime\<close> does on a string of the shape, by its parts.\<close>

lemma normalizeTime_shaped:
  assumes "length h = 1 \<or> length h = 2" "list_all isDigit h" "length m = 2" "list_all isDigit m"
    and "t = [] \<or> (\<exists>x. t = 58 # x \<and> length x = 2 \<and> list_all isDigit x)"
  shows "normalizeTime (h @ 58 # m @ t) =
     (if NumberOfDigits h > 23 \<or> NumberOfDigits m > 59 then Inl InvalidTimeValue
      else Inr (twoDigits (NumberOfDigits h) @ [58] @ twoDigits (NumberOfDigits m)))"
proof -
  let ?s = "h @ 58 # m @ t"
  from assms(1,2) have "\<not> isWhiteSpace (hd ?s)"
    by (cases h) (auto simp: digit_not_space)
  moreover have "isDigit (last (m @ t))"
  proof (cases "t = []")
    case True
    moreover from assms(3) have "m \<noteq> []" by auto
    ultimately show ?thesis using assms(4) by (simp add: list_all_last)
  next
    case False
    with assms(5) obtain x where "t = 58 # x" "length x = 2" "list_all isDigit x" by blast
    moreover from this have "x \<noteq> []" by auto
    ultimately show ?thesis by (simp add: list_all_last)
  qed
  then have "\<not> isWhiteSpace (last ?s)"
    by (simp add: digit_not_space colon_not_space)
  ultimately have tr: "trim ?s = ?s" by (simp add: trim_id)
  have sh: "timeShape ?s" unfolding timeShape_def using assms by blast
  have "hourComponent ?s = NumberOfDigits h"
    using assms(2) by (simp add: hourComponent_def takeWhile_digits_colon)
  moreover have "minuteComponent ?s = NumberOfDigits m"
    using assms(2,3) by (simp add: minuteComponent_def dropWhile_digits_colon)
  ultimately show ?thesis using tr sh by (simp add: normalizeTime_eq)
qed

text \<open>
  C1, as the code has it: the minute component needs two digits, so \<open>9:5\<close> is refused
  with the format error, as is every hour followed by a colon and one digit; a hour
  of one digit is accepted and padded, so \<open>9:05\<close> gives \<open>09:05\<close>.
\<close>

theorem normalizeTime_minutes_need_two_digits:
  "normalizeTime (js ''9:5'') = Inl InvalidTimeFormat \<and>
   normalizeTime (js ''9:05'') = Inr (js ''09:05'') \<and>
   (list_all isDigit h \<and> isDigit m \<longrightarrow> normalizeTime (h @ [58, m]) = Inl InvalidTimeFormat) \<and>
   (isDigit a \<and> isDigit m1 \<and> isDigit m2 \<and> NumberOfDigits [m1, m2] \<le> 59 \<longrightarrow>
      normalizeTime [a, 58, m1, m2] = Inr [48, a, 58, m1, m2])"
proof (intro conjI impI)
  show "normalizeTime (js ''9:5'') = Inl InvalidTimeFormat"
    by (simp add: time_eval)
  show "normalizeTime (js ''9:05'') = Inr (js ''09:05'')"
    by (simp add: time_eval)
next
  assume d: "list_all isDigit h \<and> isDigit m"
  let ?s = "h @ [58, m]"
  have "\<not> isWhiteSpace (hd ?s)"
    using d by (cases h) (auto simp: digit_not_space colon_not_space)
  moreover have "\<not> isWhiteSpace (last ?s)"
    using d by (simp add: digit_not_space)
  ultimately have tr: "trim ?s = ?s" by (simp add: trim_id)
  have "\<not> timeShape ?s"
  proof
    assume "timeShape ?s"
    then obtain h' m' t where *: "?s = h' @ 58 # m' @ t" "list_all isDigit h'"
      "length m' = 2" "list_all isDigit m'"
      unfolding timeShape_def by blast
    have "takeWhile (\<lambda>c. c \<noteq> 58) ?s = h" "dropWhile (\<lambda>c. c \<noteq> 58) ?s = [58, m]"
      using d takeWhile_digits_colon[of h "[m]"] dropWhile_digits_colon[of h "[m]"] by simp_all
    moreover have "dropWhile (\<lambda>c. c \<noteq> 58) (h' @ 58 # m' @ t) = 58 # m' @ t"
      using *(2) by (rule dropWhile_digits_colon)
    ultimately have "[m] = m' @ t" using *(1) by simp
    with *(3) show False by (cases m') auto
  qed
  with tr show "normalizeTime ?s = Inl InvalidTimeFormat"
    by (simp add: normalizeTime_eq)
next
  assume d: "isDigit a \<and> isDigit m1 \<and> isDigit m2 \<and> NumberOfDigits [m1, m2] \<le> 59"
  then have "NumberOfDigits [a] \<le> 23"
    by (simp add: NumberOfDigits_1 isDigit_def)
  with d normalizeTime_shaped[of "[a]" "[m1, m2]" "[]"]
  show "normalizeTime [a, 58, m1, m2] = Inr [48, a, 58, m1, m2]"
    by (simp add: twoDigits_1 twoDigits_2)
qed

theorem normalizeTime_minutes_need_two_digits_witness:
  "normalizeTime (js ''12:7'') = Inl InvalidTimeFormat \<and>
   normalizeTime (js ''7:30'') = Inr (js ''07:30'')"
proof -
  have "list_all isDigit (js ''12'') \<and> isDigit 55"
    by (simp add: js_def isDigit_def)
  moreover have "isDigit 55 \<and> isDigit 51 \<and> isDigit 48 \<and> NumberOfDigits [51, 48] \<le> 59"
    by (simp add: isDigit_def NumberOfDigits_def)
  ultimately show ?thesis
    using normalizeTime_minutes_need_two_digits[of "js ''12''" 55 55 51 48]
    by (simp add: js_def)
qed

text \<open>C1 as stated fails: \<open>9:5\<close> is not normalized to \<open>09:05\<close>, it is refused.\<close>

theorem normalizeTime_9_5_counterexample:
  "normalizeTime (js ''9:5'') \<noteq> Inr (js ''09:05'') \<and>
   normalizeTime (js ''9:5'') = Inl InvalidTimeFormat"
  by (simp add: time_eval)

text \<open>
  C2, as the code has it: the shape is asked of the string with the whitespace around it
  trimmed. A string whose trimmed form is not of a shape \<open>H:MM\<close> or \<open>HH:MM[:SS]\<close> is
  refused with the format error, one of the shape whose hour is beyond 23 or whose minute
  is beyond 59 is refused with the value error (so is \<open>24:00\<close>), and every result is the
  hour and the minute of the trimmed string, two digits each, around a colon.
\<close>

theorem normalizeTime_refuses_or_pads:
  "(\<not> timeShape (trim v) \<longrightarrow> normalizeTime v = Inl InvalidTimeFormat) \<and>
   (timeShape (trim v) \<and> (hourComponent (trim v) > 23 \<or> minuteComponent (trim v) > 59) \<longrightarrow>
      normalizeTime v = Inl InvalidTimeValue) \<and>
   (normalizeTime v = Inr r \<longrightarrow>
      timeShape (trim v) \<and> hourComponent (trim v) \<le> 23 \<and> minuteComponent (trim v) \<le> 59 \<and>
      r = twoDigits (hourComponent (trim v)) @ [58] @ twoDigits (minuteComponent (trim v)) \<and>
      length r = 5 \<and> list_all isDigit (take 2 r) \<and> list_all isDigit (drop 3 r)) \<and>
   normalizeTime (js ''24:00'') = Inl InvalidTimeValue"
proof (intro conjI impI)
  show "normalizeTime (js ''24:00'') = Inl InvalidTimeValue"
    by (simp add: time_eval)
next
  assume "\<not> timeShape (trim v)"
  then show "normalizeTime v = Inl InvalidTimeFormat"
    by (simp add: normalizeTime_eq)
next
  assume "timeShape (trim v) \<and> (hourComponent (trim v) > 23 \<or> minuteComponent (trim v) > 59)"
  then show "normalizeTime v = Inl InvalidTimeValue"
    by (simp add: normalizeTime_eq)
next
  assume r: "normalizeTime v = Inr r"
  then show sh: "timeShape (trim v)"
    by (simp add: normalizeTime_eq split: if_splits)
  from r show h: "hourComponent (trim v) \<le> 23" and m: "minuteComponent (trim v) \<le> 59"
    by (auto simp: normalizeTime_eq split: if_splits)
  from r show eq: "r = twoDigits (hourComponent (trim v)) @ [58] @ twoDigits (minuteComponent (trim v))"
    by (auto simp: normalizeTime_eq split: if_splits)
  then show "length r = 5" by (simp add: twoDigits_def)
  have "isDigit (48 + k div 10) \<and> isDigit (48 + k mod 10)" if "k \<le> 59" for k :: nat
    using that by (simp add: isDigit_def) arith
  moreover have "nat (hourComponent (trim v)) \<le> 59" "nat (minuteComponent (trim v)) \<le> 59"
    using h m by simp_all
  ultimately show "list_all isDigit (take 2 r)" "list_all isDigit (drop 3 r)"
    unfolding eq by (simp_all add: twoDigits_def)
qed

theorem normalizeTime_refuses_or_pads_witness:
  "normalizeTime (js ''9:5x'') = Inl InvalidTimeFormat \<and>
   normalizeTime (js ''10:75'') = Inl InvalidTimeValue \<and>
   timeShape (trim (js '' 9:05 '')) \<and>
   js ''09:05'' = twoDigits (hourComponent (trim (js '' 9:05 ''))) @ [58] @
     twoDigits (minuteComponent (trim (js '' 9:05 '')))"
proof -
  have 1: "\<not> timeShape (trim (js ''9:5x''))"
    unfolding timeShape_match by (simp add: time_eval)
  have 2: "timeShape (trim (js ''10:75'')) \<and>
      (hourComponent (trim (js ''10:75'')) > 23 \<or> minuteComponent (trim (js ''10:75'')) > 59)"
    unfolding timeShape_match
    by (simp add: time_eval minuteComponent_def)
  have 3: "normalizeTime (js '' 9:05 '') = Inr (js ''09:05'')"
    by (simp add: time_eval)
  show ?thesis
    using normalizeTime_refuses_or_pads[of "js ''9:5x''"] 1
      normalizeTime_refuses_or_pads[of "js ''10:75''"] 2
      normalizeTime_refuses_or_pads[of "js '' 9:05 ''" "js ''09:05''"] 3
    by blast
qed

text \<open>
  C2 as stated fails: a string with a space before the hour is not of a shape \<open>H:MM\<close> or
  \<open>HH:MM[:SS]\<close>, and it is accepted.
\<close>

theorem normalizeTime_untrimmed_counterexample:
  "\<not> timeShape (js '' 9:05'') \<and> normalizeTime (js '' 9:05'') = Inr (js ''09:05'')"
  unfolding timeShape_match by (simp add: time_eval)

text \<open>
  C10: the seconds of \<open>HH:MM:SS\<close> (and of \<open>H:MM:SS\<close>) are two digits of any value; with
  the hour at most 23 and the minute at most 59 the result is the hour and the minute,
  the seconds dropped. So \<open>10:30:99\<close> gives \<open>10:30\<close>.
\<close>

theorem normalizeTime_seconds_unchecked:
  "(list_all isDigit [h1, h2, m1, m2, s1, s2] \<and> NumberOfDigits [h1, h2] \<le> 23 \<and>
      NumberOfDigits [m1, m2] \<le> 59 \<longrightarrow>
      normalizeTime [h1, h2, 58, m1, m2, 58, s1, s2] = Inr [h1, h2, 58, m1, m2]) \<and>
   (list_all isDigit [h2, m1, m2, s1, s2] \<and> NumberOfDigits [m1, m2] \<le> 59 \<longrightarrow>
      normalizeTime [h2, 58, m1, m2, 58, s1, s2] = Inr [48, h2, 58, m1, m2]) \<and>
   normalizeTime (js ''10:30:99'') = Inr (js ''10:30'')"
proof (intro conjI impI)
  show "normalizeTime (js ''10:30:99'') = Inr (js ''10:30'')"
    by (simp add: time_eval)
next
  assume d: "list_all isDigit [h1, h2, m1, m2, s1, s2] \<and> NumberOfDigits [h1, h2] \<le> 23 \<and>
      NumberOfDigits [m1, m2] \<le> 59"
  with normalizeTime_shaped[of "[h1, h2]" "[m1, m2]" "[58, s1, s2]"]
  show "normalizeTime [h1, h2, 58, m1, m2, 58, s1, s2] = Inr [h1, h2, 58, m1, m2]"
    by (simp add: twoDigits_2)
next
  assume d: "list_all isDigit [h2, m1, m2, s1, s2] \<and> NumberOfDigits [m1, m2] \<le> 59"
  then have "NumberOfDigits [h2] \<le> 23"
    by (simp add: NumberOfDigits_1 isDigit_def)
  with d normalizeTime_shaped[of "[h2]" "[m1, m2]" "[58, s1, s2]"]
  show "normalizeTime [h2, 58, m1, m2, 58, s1, s2] = Inr [48, h2, 58, m1, m2]"
    by (simp add: twoDigits_1 twoDigits_2)
qed

theorem normalizeTime_seconds_unchecked_witness:
  "normalizeTime (js ''23:59:60'') = Inr (js ''23:59'') \<and>
   normalizeTime (js ''7:00:75'') = Inr (js ''07:00'')"
proof -
  have "list_all isDigit [50, 51, 53, 57, 54, 48] \<and> NumberOfDigits [50, 51] \<le> 23 \<and>
      NumberOfDigits [53, 57] \<le> 59"
    by (simp add: isDigit_def NumberOfDigits_def)
  moreover have "list_all isDigit [55, 48, 48, 55, 53] \<and> NumberOfDigits [48, 48] \<le> 59"
    by (simp add: isDigit_def NumberOfDigits_def)
  ultimately show ?thesis
    using normalizeTime_seconds_unchecked[of 50 51 53 57 54 48]
      normalizeTime_seconds_unchecked[of _ 55 48 48 55 53]
    by (simp add: js_def)
qed

subsection \<open>The Booking pre-save hook\<close>

lemma plusThen_iff:
  "plusThen X k s \<longleftrightarrow> (\<exists>a b. s = a @ b \<and> a \<noteq> [] \<and> list_all X a \<and> k b)"
proof (induction s)
  case Nil
  then show ?case by simp
next
  case (Cons c cs)
  show ?case
  proof
    assume "plusThen X k (c # cs)"
    then have c: "X c" and more: "plusThen X k cs \<or> k cs" by simp_all
    from more show "\<exists>a b. c # cs = a @ b \<and> a \<noteq> [] \<and> list_all X a \<and> k b"
    proof
      assume "plusThen X k cs"
      with Cons.IH obtain a b where "cs = a @ b" "list_all X a" "k b" by blast
      with c have "c # cs = (c # a) @ b \<and> c # a \<noteq> [] \<and> list_all X (c # a) \<and> k b" by simp
      then show ?thesis by blast
    next
      assume "k cs"
      with c have "c # cs = [c] @ cs \<and> [c] \<noteq> [] \<and> list_all X [c] \<and> k cs" by simp
      then show ?thesis by blast
    qed
  next
    assume "\<exists>a b. c # cs = a @ b \<and> a \<noteq> [] \<and> list_all X a \<and> k b"
    then obtain a b where ab: "c # cs = a @ b" "a \<noteq> []" "list_all X a" "k b" by blast
    then obtain a' where a': "a = c # a'" "cs = a' @ b" by (cases a) auto
    show "plusThen X k (c # cs)"
    proof (cases "a' = []")
      case True
      with a' ab show ?thesis by simp
    next
      case False
      with a' ab have "plusThen X k cs" using Cons.IH by auto
      with a' ab show ?thesis by simp
    qed
  qed
qed

lemma charThen_iff: "charThen x k s \<longleftrightarrow> (\<exists>r. s = x # r \<and> k r)"
  by (cases s) (auto simp: charThen_def)

text \<open>The regular expression of the code accepts what the pattern of the specification describes.\<close>

lemma emailRegex_test_iff: "emailRegex_test s \<longleftrightarrow> localAtDomainTld s"
proof
  assume "emailRegex_test s"
  then obtain l r1 where 1: "s = l @ r1" "l \<noteq> []" "list_all notSpaceAt l"
    "charThen 64 (plusThen notSpaceAt (charThen 46 (plusThen notSpaceAt atEnd))) r1"
    unfolding emailRegex_test_def plusThen_iff[of notSpaceAt _ s] by blast
  from 1(4) obtain r2 where 2: "r1 = 64 # r2"
    "plusThen notSpaceAt (charThen 46 (plusThen notSpaceAt atEnd)) r2"
    unfolding charThen_iff by blast
  from 2(2) obtain d r3 where 3: "r2 = d @ r3" "d \<noteq> []" "list_all notSpaceAt d"
    "charThen 46 (plusThen notSpaceAt atEnd) r3"
    unfolding plusThen_iff[of notSpaceAt _ r2] by blast
  from 3(4) obtain r4 where 4: "r3 = 46 # r4" "plusThen notSpaceAt atEnd r4"
    unfolding charThen_iff by blast
  from 4(2) obtain t r5 where 5: "r4 = t @ r5" "t \<noteq> []" "list_all notSpaceAt t" "atEnd r5"
    unfolding plusThen_iff[of notSpaceAt _ r4] by blast
  from 1 2 3 4 5 have "s = l @ 64 # d @ 46 # t" by (simp add: atEnd_def)
  with 1 3 5 show "localAtDomainTld s" unfolding localAtDomainTld_def by blast
next
  assume "localAtDomainTld s"
  then obtain l d t where *: "s = l @ 64 # d @ 46 # t" "l \<noteq> []" "d \<noteq> []" "t \<noteq> []"
    "list_all notSpaceAt l" "list_all notSpaceAt d" "list_all notSpaceAt t"
    unfolding localAtDomainTld_def by blast
  have "plusThen notSpaceAt atEnd t"
    unfolding plusThen_iff[of notSpaceAt _ t] using *(4,7) by (auto simp: atEnd_def)
  then have "charThen 46 (plusThen notSpaceAt atEnd) (46 # t)"
    by (simp add: charThen_iff)
  then have "plusThen notSpaceAt (charThen 46 (plusThen notSpaceAt atEnd)) (d @ 46 # t)"
    unfolding plusThen_iff[of notSpaceAt _ "d @ 46 # t"] using *(3,6) by blast
  then have "charThen 64 (plusThen notSpaceAt (charThen 46 (plusThen notSpaceAt atEnd)))
      (64 # d @ 46 # t)"
    by (simp add: charThen_iff)
  then show "emailRegex_test s"
    unfolding emailRegex_test_def plusThen_iff[of notSpaceAt _ s] using *(1,2,5) by blast
qed

lemmas email_eval =
  emailRegex_test_def charThen_def atEnd_def notSpaceAt_def isWhiteSpace_def js_def

lemma foo_at_bar: "\<not> emailRegex_test (js ''foo@bar'')"
  by (simp add: email_eval)

lemma trim_asciiLower: "trim (map asciiLower s) = map asciiLower (trim s)"
proof -
  have w: "isWhiteSpace \<circ> asciiLower = isWhiteSpace"
    by (rule ext) (auto simp: asciiLower_def isWhiteSpace_def)
  have d: "dropWhile isWhiteSpace (map asciiLower x) = map asciiLower (dropWhile isWhiteSpace x)"
    for x
    by (simp add: dropWhile_map w)
  have "trim (map asciiLower s) =
      rev (dropWhile isWhiteSpace (map asciiLower (rev (dropWhile isWhiteSpace s))))"
    by (simp only: trim_def d rev_map)
  also have "\<dots> = map asciiLower (trim s)"
    by (simp only: trim_def d rev_map)
  finally show ?thesis .
qed

text \<open>
  On a string of ASCII characters the two setters give the same in either order: the
  given string trimmed, with A-Z as a-z.
\<close>

lemma storedEmail_ascii:
  "list_all (\<lambda>c. c < 128) given \<Longrightarrow> storedEmail rt given = map asciiLower (trim given)"
  by (simp add: storedEmail_def toLowerCase_def trim_asciiLower)

lemma storedEmail_example:
  "storedEmail rt (js '' Ann@Example.ORG '') = js ''ann@example.org''"
  by (simp add: storedEmail_def toLowerCase_def asciiLower_def trim_def isWhiteSpace_def js_def)

lemma ann_at_example: "emailRegex_test (js ''ann@example.org'')"
  by (simp add: email_eval)

lemma ann_untrimmed: "\<not> emailRegex_test (js '' Ann@Example.ORG '')"
  by (simp add: email_eval)

text \<open>
  C7, as the code has it: the hook fails exactly when the email of the document is not
  of the pattern \<open>local@domain.tld\<close>, or the lookup of the event is rejected, or no event
  of the collection has the id of the booking. So it fails for the email \<open>foo@bar\<close> and
  for an id that no event has; a rejected lookup fails it with the error of the
  rejection, also for a good email and an event that exists. The email of the document
  is the given one as the schema stores it, lowercased and trimmed.
\<close>

theorem booking_preSave_fails_iff:
  "(booking_preSave db this \<noteq> None \<longleftrightarrow>
      \<not> localAtDomainTld (email this) \<or> lookupFailure db \<noteq> None \<or>
      eventId this \<notin> eventIds db) \<and>
   booking_preSave db \<lparr>eventId = i, email = js ''foo@bar''\<rparr> = Some InvalidEmail \<and>
   (eventId this \<notin> eventIds db \<longrightarrow> booking_preSave db this \<noteq> None) \<and>
   (\<not> localAtDomainTld (email this) \<longrightarrow> booking_preSave db this = Some InvalidEmail) \<and>
   (localAtDomainTld (email this) \<and> lookupFailure db = Some err \<longrightarrow>
      booking_preSave db this = Some err) \<and>
   (localAtDomainTld (email this) \<and> lookupFailure db = None \<and> eventId this \<notin> eventIds db \<longrightarrow>
      booking_preSave db this = Some EventMissing) \<and>
   (localAtDomainTld (email this) \<and> lookupFailure db = None \<and> eventId this \<in> eventIds db \<longrightarrow>
      booking_preSave db this = None) \<and>
   (booking_preSave db \<lparr>eventId = i, email = storedEmail rt given\<rparr> \<noteq> None \<longleftrightarrow>
      \<not> localAtDomainTld (storedEmail rt given) \<or> lookupFailure db \<noteq> None \<or> i \<notin> eventIds db)"
proof (intro conjI)
  show "booking_preSave db \<lparr>eventId = i, email = storedEmail rt given\<rparr> \<noteq> None \<longleftrightarrow>
      \<not> localAtDomainTld (storedEmail rt given) \<or> lookupFailure db \<noteq> None \<or> i \<notin> eventIds db"
    by (auto simp: booking_preSave_def Event_exists_def emailRegex_test_iff split: option.splits)
  show "booking_preSave db this \<noteq> None \<longleftrightarrow>
      \<not> localAtDomainTld (email this) \<or> lookupFailure db \<noteq> None \<or>
      eventId this \<notin> eventIds db"
    by (auto simp: booking_preSave_def Event_exists_def emailRegex_test_iff split: option.splits)
  show "booking_preSave db \<lparr>eventId = i, email = js ''foo@bar''\<rparr> = Some InvalidEmail"
    using foo_at_bar by (simp add: booking_preSave_def)
  show "eventId this \<notin> eventIds db \<longrightarrow> booking_preSave db this \<noteq> None"
    by (auto simp: booking_preSave_def Event_exists_def split: option.splits)
  show "\<not> localAtDomainTld (email this) \<longrightarrow> booking_preSave db this = Some InvalidEmail"
    by (simp add: booking_preSave_def emailRegex_test_iff)
  show "localAtDomainTld (email this) \<and> lookupFailure db = Some err \<longrightarrow>
      booking_preSave db this = Some err"
    by (simp add: booking_preSave_def Event_exists_def emailRegex_test_iff)
  show "localAtDomainTld (email this) \<and> lookupFailure db = None \<and> eventId this \<notin> eventIds db \<longrightarrow>
      booking_preSave db this = Some EventMissing"
    by (simp add: booking_preSave_def Event_exists_def emailRegex_test_iff)
  show "localAtDomainTld (email this) \<and> lookupFailure db = None \<and> eventId this \<in> eventIds db \<longrightarrow>
      booking_preSave db this = None"
    by (simp add: booking_preSave_def Event_exists_def emailRegex_test_iff)
qed

theorem booking_preSave_fails_iff_witness:
  "localAtDomainTld (js ''ann@example.org'') \<and>
   booking_preSave \<lparr>eventIds = {1, 2}, lookupFailure = None\<rparr>
     \<lparr>eventId = 3, email = js ''ann@example.org''\<rparr> = Some EventMissing \<and>
   booking_preSave \<lparr>eventIds = {1, 2}, lookupFailure = None\<rparr>
     \<lparr>eventId = 2, email = js ''ann@example.org''\<rparr> = None \<and>
   booking_preSave \<lparr>eventIds = {1, 2}, lookupFailure = Some (LookupFailed 7)\<rparr>
     \<lparr>eventId = 2, email = js ''ann@example.org''\<rparr> = Some (LookupFailed 7) \<and>
   booking_preSave \<lparr>eventIds = {1, 2}, lookupFailure = None\<rparr>
     \<lparr>eventId = 2, email = js ''foo@bar''\<rparr> = Some InvalidEmail"
proof -
  have e: "localAtDomainTld (js ''ann@example.org'')"
    unfolding emailRegex_test_iff[symmetric] by (rule ann_at_example)
  have n: "\<not> localAtDomainTld (js ''foo@bar'')"
    unfolding emailRegex_test_iff[symmetric] by (rule foo_at_bar)
  show ?thesis
    using e n
      booking_preSave_fails_iff[of "\<lparr>eventIds = {1, 2}, lookupFailure = None\<rparr>"
        "\<lparr>eventId = 3, email = js ''ann@example.org''\<rparr>"]
      booking_preSave_fails_iff[of "\<lparr>eventIds = {1, 2}, lookupFailure = None\<rparr>"
        "\<lparr>eventId = 2, email = js ''ann@example.org''\<rparr>"]
      booking_preSave_fails_iff[of "\<lparr>eventIds = {1, 2}, lookupFailure = Some (LookupFailed 7)\<rparr>"
        "\<lparr>eventId = 2, email = js ''ann@example.org''\<rparr>" _ "LookupFailed 7"]
      booking_preSave_fails_iff[of "\<lparr>eventIds = {1, 2}, lookupFailure = None\<rparr>"
        "\<lparr>eventId = 2, email = js ''foo@bar''\<rparr>"]
    by simp
qed

text \<open>
  C7 as stated fails in both directions. The email \<open>ann@example.org\<close> is of the pattern
  and the event 1 exists, and the hook fails, since the lookup is rejected. And the
  email given with a space around it and with capitals is not of the pattern, and the
  hook passes on the document that holds it, trimmed and lowercased.
\<close>

theorem booking_preSave_counterexample:
  "localAtDomainTld (js ''ann@example.org'') \<and>
   1 \<in> eventIds \<lparr>eventIds = {1}, lookupFailure = Some (LookupFailed 0)\<rparr> \<and>
   booking_preSave \<lparr>eventIds = {1}, lookupFailure = Some (LookupFailed 0)\<rparr>
     \<lparr>eventId = 1, email = js ''ann@example.org''\<rparr> = Some (LookupFailed 0) \<and>
   \<not> localAtDomainTld (js '' Ann@Example.ORG '') \<and>
   booking_preSave \<lparr>eventIds = {1}, lookupFailure = None\<rparr>
     \<lparr>eventId = 1, email = storedEmail plainRuntime (js '' Ann@Example.ORG '')\<rparr> = None"
proof (intro conjI)
  show "localAtDomainTld (js ''ann@example.org'')"
    unfolding emailRegex_test_iff[symmetric] by (rule ann_at_example)
  show "1 \<in> eventIds \<lparr>eventIds = {1}, lookupFailure = Some (LookupFailed 0)\<rparr>"
    by simp
  show "booking_preSave \<lparr>eventIds = {1}, lookupFailure = Some (LookupFailed 0)\<rparr>
     \<lparr>eventId = 1, email = js ''ann@example.org''\<rparr> = Some (LookupFailed 0)"
    using ann_at_example by (simp add: booking_preSave_def Event_exists_def)
  show "\<not> localAtDomainTld (js '' Ann@Example.ORG '')"
    unfolding emailRegex_test_iff[symmetric] by (rule ann_untrimmed)
  show "booking_preSave \<lparr>eventIds = {1}, lookupFailure = None\<rparr>
     \<lparr>eventId = 1, email = storedEmail plainRuntime (js '' Ann@Example.ORG '')\<rparr> = None"
    unfolding storedEmail_example using ann_at_example
    by (simp add: booking_preSave_def Event_exists_def)
qed

subsection \<open>The connection cache\<close>

lemma connectToDatabase_cached:
  "conn (cached p) = Some c \<Longrightarrow> connectToDatabase p = (Returned c, p)"
  by (simp add: connectToDatabase_def)

lemma calls_cached:
  "conn (cached p) = Some c \<Longrightarrow> calls k p = (replicate k (Returned c), p)"
  by (induction k) (simp_all add: connectToDatabase_cached)

lemma resume_fulfilled:
  "settled p n = Some (Fulfilled c) \<Longrightarrow>
     resume n p = Some (Inr c, p\<lparr>cached := (cached p)\<lparr>conn := Some c\<rparr>\<rparr>)"
  by (simp add: resume_def)

lemma resume_rejected:
  "settled p n = Some (Rejected err) \<Longrightarrow>
     resume n p = Some (Inl err, p\<lparr>cached := (cached p)\<lparr>promise := None\<rparr>\<rparr>)"
  by (simp add: resume_def)

lemma resume_Inr:
  "resume n p = Some (Inr c, p') \<Longrightarrow>
     settled p n = Some (Fulfilled c) \<and> p' = p\<lparr>cached := (cached p)\<lparr>conn := Some c\<rparr>\<rparr>"
  by (auto simp: resume_def split: option.splits settlement.splits)

text \<open>
  C5: once a call has resolved with a connection, every call after it returns that
  connection at once and changes nothing, so it makes no further attempt. And two calls
  made on an empty cache before the attempt settles wait for one and the same promise,
  the only attempt made, and both resolve with the connection that promise is fulfilled
  with.
\<close>

theorem connectToDatabase_reuses_connection:
  "(resume n p = Some (Inr c, p') \<longrightarrow>
      conn (cached p') = Some c \<and> attempts p' = attempts p \<and>
      (\<forall>k. calls k p' = (replicate k (Returned c), p'))) \<and>
   (conn (cached q) = None \<and> promise (cached q) = None \<and> settled q (attempts q) = None \<longrightarrow>
      (\<exists>q1 q2.
         connectToDatabase q = (Awaiting (attempts q), q1) \<and>
         connectToDatabase q1 = (Awaiting (attempts q), q1) \<and>
         promise (cached q1) = Some (attempts q) \<and>
         attempts q1 = attempts q + 1 \<and>
         resume (attempts q) (settle (attempts q) (Fulfilled c) q1) = Some (Inr c, q2) \<and>
         resume (attempts q) q2 = Some (Inr c, q2) \<and>
         conn (cached q2) = Some c \<and>
         attempts q2 = attempts q + 1))"
proof (intro conjI impI)
  assume "resume n p = Some (Inr c, p')"
  then have p': "p' = p\<lparr>cached := (cached p)\<lparr>conn := Some c\<rparr>\<rparr>"
    by (simp add: resume_Inr)
  then show c: "conn (cached p') = Some c" and "attempts p' = attempts p"
    by simp_all
  from c show "\<forall>k. calls k p' = (replicate k (Returned c), p')"
    by (simp add: calls_cached)
next
  assume q: "conn (cached q) = None \<and> promise (cached q) = None \<and> settled q (attempts q) = None"
  define q1 where "q1 = q\<lparr>cached := (cached q)\<lparr>promise := Some (attempts q)\<rparr>,
    attempts := attempts q + 1\<rparr>"
  define q' where "q' = settle (attempts q) (Fulfilled c) q1"
  define q2 where "q2 = q'\<lparr>cached := (cached q')\<lparr>conn := Some c\<rparr>\<rparr>"
  have 1: "connectToDatabase q = (Awaiting (attempts q), q1)"
    using q by (simp add: connectToDatabase_def q1_def)
  have 2: "connectToDatabase q1 = (Awaiting (attempts q), q1)"
    using q by (simp add: connectToDatabase_def q1_def)
  have s: "settled q' (attempts q) = Some (Fulfilled c)"
    using q by (simp add: q'_def settle_def q1_def)
  then have 3: "resume (attempts q) q' = Some (Inr c, q2)"
    unfolding q2_def by (rule resume_fulfilled)
  have "settled q2 (attempts q) = Some (Fulfilled c)"
    using s by (simp add: q2_def)
  then have "resume (attempts q) q2 = Some (Inr c, q2\<lparr>cached := (cached q2)\<lparr>conn := Some c\<rparr>\<rparr>)"
    by (rule resume_fulfilled)
  moreover have "q2\<lparr>cached := (cached q2)\<lparr>conn := Some c\<rparr>\<rparr> = q2"
    by (simp add: q2_def)
  ultimately have 4: "resume (attempts q) q2 = Some (Inr c, q2)" by simp
  have 5: "promise (cached q1) = Some (attempts q)" "attempts q1 = attempts q + 1"
    by (simp_all add: q1_def)
  have 6: "conn (cached q2) = Some c" "attempts q2 = attempts q + 1"
    using q by (simp_all add: q2_def q'_def settle_def q1_def)
  from 1 2 3 4 5 6 show "\<exists>q1 q2.
         connectToDatabase q = (Awaiting (attempts q), q1) \<and>
         connectToDatabase q1 = (Awaiting (attempts q), q1) \<and>
         promise (cached q1) = Some (attempts q) \<and>
         attempts q1 = attempts q + 1 \<and>
         resume (attempts q) (settle (attempts q) (Fulfilled c) q1) = Some (Inr c, q2) \<and>
         resume (attempts q) q2 = Some (Inr c, q2) \<and>
         conn (cached q2) = Some c \<and>
         attempts q2 = attempts q + 1"
    unfolding q'_def by blast
qed

theorem connectToDatabase_reuses_connection_witness:
  "\<exists>q1 q2.
     connectToDatabase initialProcess = (Awaiting 0, q1) \<and>
     connectToDatabase q1 = (Awaiting 0, q1) \<and>
     attempts q1 = 1 \<and>
     resume 0 (settle 0 (Fulfilled (Connection 7)) q1) = Some (Inr (Connection 7), q2) \<and>
     resume 0 q2 = Some (Inr (Connection 7), q2) \<and>
     attempts q2 = 1 \<and>
     calls 3 q2 = (replicate 3 (Returned (Connection 7)), q2)"
proof -
  have a: "attempts initialProcess = 0"
    by (simp add: initialProcess_def)
  have h: "conn (cached initialProcess) = None \<and> promise (cached initialProcess) = None \<and>
      settled initialProcess (attempts initialProcess) = None"
    by (simp add: initialProcess_def)
  from connectToDatabase_reuses_connection[of _ _ "Connection 7" _ initialProcess,
      THEN conjunct2, THEN mp, OF h]
  obtain q1 q2 where q0:
    "connectToDatabase initialProcess = (Awaiting (attempts initialProcess), q1)"
    "connectToDatabase q1 = (Awaiting (attempts initialProcess), q1)"
    "attempts q1 = attempts initialProcess + 1"
    "resume (attempts initialProcess)
       (settle (attempts initialProcess) (Fulfilled (Connection 7)) q1) =
     Some (Inr (Connection 7), q2)"
    "resume (attempts initialProcess) q2 = Some (Inr (Connection 7), q2)"
    "attempts q2 = attempts initialProcess + 1"
    by blast
  have q:
    "connectToDatabase initialProcess = (Awaiting 0, q1)"
    "connectToDatabase q1 = (Awaiting 0, q1)"
    "attempts q1 = 1"
    "resume 0 (settle 0 (Fulfilled (Connection 7)) q1) = Some (Inr (Connection 7), q2)"
    "resume 0 q2 = Some (Inr (Connection 7), q2)"
    "attempts q2 = 1"
    using q0 unfolding a by simp_all
  from q(5) connectToDatabase_reuses_connection[of 0 q2 "Connection 7" q2]
  have "calls 3 q2 = (replicate 3 (Returned (Connection 7)), q2)"
    by blast
  with q show ?thesis by blast
qed

text \<open>
  C6: when the awaited attempt is rejected, the call throws the error of the rejection
  and leaves the cached promise cleared, the cached connection and the number of
  attempts as they were; with no connection cached, the next call makes a new attempt
  and waits for its promise.
\<close>

theorem connectToDatabase_failure_clears_promise:
  "settled p n = Some (Rejected err) \<longrightarrow>
     (\<exists>p'. resume n p = Some (Inl err, p') \<and>
        promise (cached p') = None \<and>
        conn (cached p') = conn (cached p) \<and>
        attempts p' = attempts p \<and>
        (conn (cached p) = None \<longrightarrow>
           (\<exists>p''. connectToDatabase p' = (Awaiting (attempts p), p'') \<and>
              promise (cached p'') = Some (attempts p) \<and>
              attempts p'' = attempts p + 1)))"
proof
  assume r: "settled p n = Some (Rejected err)"
  define p' where "p' = p\<lparr>cached := (cached p)\<lparr>promise := None\<rparr>\<rparr>"
  from r have "resume n p = Some (Inl err, p')"
    unfolding p'_def by (rule resume_rejected)
  moreover have "promise (cached p') = None" "conn (cached p') = conn (cached p)"
    "attempts p' = attempts p"
    by (simp_all add: p'_def)
  moreover have "conn (cached p) = None \<longrightarrow>
      (\<exists>p''. connectToDatabase p' = (Awaiting (attempts p), p'') \<and>
         promise (cached p'') = Some (attempts p) \<and> attempts p'' = attempts p + 1)"
    by (simp add: connectToDatabase_def p'_def)
  ultimately show "\<exists>p'. resume n p = Some (Inl err, p') \<and>
        promise (cached p') = None \<and>
        conn (cached p') = conn (cached p) \<and>
        attempts p' = attempts p \<and>
        (conn (cached p) = None \<longrightarrow>
           (\<exists>p''. connectToDatabase p' = (Awaiting (attempts p), p'') \<and>
              promise (cached p'') = Some (attempts p) \<and>
              attempts p'' = attempts p + 1))"
    by (intro exI[of _ p']) simp
qed

theorem connectToDatabase_failure_clears_promise_witness:
  "\<exists>p' p''.
     resume 0 (settle 0 (Rejected (ConnectFailed 1)) (snd (connectToDatabase initialProcess))) =
       Some (Inl (ConnectFailed 1), p') \<and>
     promise (cached p') = None \<and>
     connectToDatabase p' = (Awaiting 1, p'') \<and>
     promise (cached p'') = Some 1 \<and>
     attempts p'' = 2"
proof -
  define p where "p = settle 0 (Rejected (ConnectFailed 1)) (snd (connectToDatabase initialProcess))"
  have s: "settled p 0 = Some (Rejected (ConnectFailed 1))"
    and c: "conn (cached p) = None" and a: "attempts p = 1"
    by (simp_all add: p_def settle_def connectToDatabase_def initialProcess_def)
  from s c a connectToDatabase_failure_clears_promise[of p 0 "ConnectFailed 1"]
  show ?thesis unfolding p_def[symmetric] by auto
qed

subsection \<open>The Event pre-save hook\<close>

lemma checkStringFields_Some:
  "checkStringFields this fs = Some err \<Longrightarrow>
     \<exists>f \<in> set fs. err = FieldRequired f \<and> notNonEmptyString (this f)"
  by (induction fs) (auto split: if_splits)

lemma checkStringFields_None:
  "checkStringFields this fs = None \<longleftrightarrow> (\<forall>f \<in> set fs. \<not> notNonEmptyString (this f))"
  by (induction fs) auto

text \<open>The test on an array field, as the second loop makes it.\<close>

lemma checkArrayFields_Some:
  "checkArrayFields this fs = Some err \<Longrightarrow>
     \<exists>f \<in> set fs. (err = FieldNotArray f \<or> err = FieldBadItems f) \<and>
       (case this f of
          Arr items \<Rightarrow> items = [] \<or> list_ex notNonEmptyString items
        | _ \<Rightarrow> True)"
  by (induction fs) (auto split: if_splits jsvalue.splits)

lemma checkArrayFields_None:
  "checkArrayFields this fs = None \<longleftrightarrow>
     (\<forall>f \<in> set fs. case this f of
        Arr items \<Rightarrow> items \<noteq> [] \<and> \<not> list_ex notNonEmptyString items
      | _ \<Rightarrow> False)"
  by (induction fs) (auto split: jsvalue.splits)

lemma offendingField_iff:
  "offendingField this f \<longleftrightarrow>
     (f \<in> set requiredStringFields \<and> notNonEmptyString (this f)) \<or>
     (f \<in> set requiredArrayFields \<and>
        (case this f of Arr items \<Rightarrow> items = [] \<or> list_ex notNonEmptyString items | _ \<Rightarrow> True))"
  by (auto simp: offendingField_def notNonEmptyString_def list_ex_iff split: jsvalue.splits)

text \<open>
  C8: when a required string field is not a string or is empty once trimmed, or
  \<open>agenda\<close> or \<open>tags\<close> is not a non-empty array of non-empty strings, the hook fails, and
  its error names a field that is at fault.
\<close>

theorem event_preSave_names_offending_field:
  "offendingField (props this) f \<longrightarrow>
     (\<exists>err g. event_preSave rt this = Inl err \<and> fieldOfError err = Some g \<and>
        offendingField (props this) g)"
proof
  assume off: "offendingField (props this) f"
  show "\<exists>err g. event_preSave rt this = Inl err \<and> fieldOfError err = Some g \<and>
        offendingField (props this) g"
  proof (cases "checkStringFields (props this) requiredStringFields")
    case (Some err)
    then obtain g where "g \<in> set requiredStringFields" "err = FieldRequired g"
      "notNonEmptyString (props this g)"
      by (blast dest: checkStringFields_Some)
    moreover from Some have "event_preSave rt this = Inl err"
      by (simp add: event_preSave_def)
    ultimately show ?thesis
      by (auto simp: offendingField_iff fieldOfError_def)
  next
    case None
    then have "\<not> (f \<in> set requiredStringFields \<and> notNonEmptyString (props this f))"
      by (auto simp: checkStringFields_None)
    with off have bad: "f \<in> set requiredArrayFields"
      "case props this f of Arr items \<Rightarrow> items = [] \<or> list_ex notNonEmptyString items | _ \<Rightarrow> True"
      by (auto simp: offendingField_iff)
    have "checkArrayFields (props this) requiredArrayFields \<noteq> None"
    proof
      assume "checkArrayFields (props this) requiredArrayFields = None"
      with bad(1) have "case props this f of
          Arr items \<Rightarrow> items \<noteq> [] \<and> \<not> list_ex notNonEmptyString items
        | _ \<Rightarrow> False"
        unfolding checkArrayFields_None by blast
      with bad(2) show False by (cases "props this f") auto
    qed
    then obtain err where err: "checkArrayFields (props this) requiredArrayFields = Some err"
      by blast
    then obtain g where "g \<in> set requiredArrayFields"
      "err = FieldNotArray g \<or> err = FieldBadItems g"
      "case props this g of Arr items \<Rightarrow> items = [] \<or> list_ex notNonEmptyString items | _ \<Rightarrow> True"
      by (blast dest: checkArrayFields_Some)
    moreover from None err have "event_preSave rt this = Inl err"
      by (simp add: event_preSave_def)
    ultimately show ?thesis
      by (auto simp: offendingField_iff fieldOfError_def)
  qed
qed

lemmas event_eval =
  event_preSave_def punctuationEvent_def setField_def requiredStringFields_def
  requiredArrayFields_def notNonEmptyString_def trim_def isWhiteSpace_def js_def
  stringField_def regeneratesSlug_def falsy_def

lemma event_without_title:
  "event_preSave rt (setField ''title'' Undefined punctuationEvent) = Inl (FieldRequired ''title'')"
  by (simp add: event_eval)

lemma event_with_blank_tag:
  "event_preSave rt (setField ''tags'' (Arr [Str (js ''web''), Str (js '' '')]) punctuationEvent) =
     Inl (FieldBadItems ''tags'')"
  by (simp add: event_eval)

theorem event_preSave_names_offending_field_witness:
  "offendingField (props (setField ''title'' Undefined punctuationEvent)) ''title'' \<and>
   event_preSave plainRuntime (setField ''title'' Undefined punctuationEvent) =
     Inl (FieldRequired ''title'') \<and>
   (\<exists>err g. event_preSave plainRuntime (setField ''title'' Undefined punctuationEvent) = Inl err \<and>
      fieldOfError err = Some g \<and>
      offendingField (props (setField ''title'' Undefined punctuationEvent)) g)"
proof -
  have off: "offendingField (props (setField ''title'' Undefined punctuationEvent)) ''title''"
    by (simp add: offendingField_iff setField_def requiredStringFields_def notNonEmptyString_def)
  from event_preSave_names_offending_field[of "setField ''title'' Undefined punctuationEvent"
      "''title''" plainRuntime, THEN mp, OF off]
  have ex: "\<exists>err g. event_preSave plainRuntime (setField ''title'' Undefined punctuationEvent) = Inl err \<and>
      fieldOfError err = Some g \<and>
      offendingField (props (setField ''title'' Undefined punctuationEvent)) g" .
  from off event_without_title[of plainRuntime] ex show ?thesis
    by (intro conjI)
qed


subsection \<open>An empty slug\<close>




text \<open>Padding by a number of characters that is written as a numeral.\<close>

lemma pad_numeral: "replicate (numeral n) c = c # replicate (pred_numeral n) c"
  unfolding numeral_eq_Suc by simp

lemmas parse_eval =
  newDate_def dateParse_def dateParseUTC_def parseYear_def number_def digits_def isDigit_def
  lit_def parseTimeUTC_def NumberOfDigits_def daysInMonth_def isLeapYear_def daysFromCivil_def
  marchYear_def dayOfMarchYear_def daysBeforeMarchYear_def msPerDay_def timeClip_def js_def

lemmas format_eval =
  toISOString_def civilFromDays_def civilYear_def civilMonth_def civilDay_def eraDay_def
  eraYear_def yearDay_def monthIndex_def dateString_def yearString_def timeString_def
  zeroPad_def padStart_def toString_def decimal.simps splitFirst_def msPerDay_def
  pad_numeral js_def


























subsection \<open>generateSlug\<close>









lemma dash_not_space: "\<not> isWhiteSpace 45"
  by (simp add: isWhiteSpace_def)


















subsection \<open>normalizeDate\<close>

lemma decimal_digits: "list_all isDigit (decimal n)"
proof (induction n rule: decimal.induct)
  case (1 n)
  show ?case
  proof (cases "n < 10")
    case True
    then show ?thesis by (simp add: decimal.simps isDigit_def)
  next
    case False
    have "n mod 10 \<le> 9" by simp
    then have "isDigit (48 + n mod 10)" unfolding isDigit_def by linarith
    with False 1 show ?thesis by (subst decimal.simps) simp
  qed
qed

lemma decimal_length: "n < 10000 \<Longrightarrow> length (decimal n) \<le> 4"
  by (simp add: decimal.simps[of n] decimal.simps[of "n div 10"] decimal.simps[of "n div 10 div 10"]
      decimal.simps[of "n div 10 div 10 div 10"])

lemma toString_digits: "0 \<le> i \<Longrightarrow> list_all isDigit (toString i)"
  by (simp add: toString_def decimal_digits)

lemma sign_or_digit: "c = 45 \<or> c = 43 \<or> isDigit c \<Longrightarrow> c \<noteq> 84"
  by (auto simp: isDigit_def)

lemma zeroPad_chars: "list_all (\<lambda>c. c = 45 \<or> c = 43 \<or> isDigit c) (zeroPad n i)"
proof -
  have "list_all (\<lambda>c. c = 45 \<or> c = 43 \<or> isDigit c) (decimal k)" for k
    using decimal_digits[of k] by (simp add: list_all_iff)
  moreover have "isDigit 48" by (simp add: isDigit_def)
  ultimately show ?thesis
    by (auto simp: zeroPad_def padStart_def toString_def list_all_iff)
qed

lemma dateString_chars: "list_all (\<lambda>c. c = 45 \<or> c = 43 \<or> isDigit c) (dateString ymd)"
  by (cases ymd) (simp add: dateString_def yearString_def zeroPad_chars)

text \<open>The date that \<open>normalizeDate\<close> returns is the date part of \<open>toISOString\<close>.\<close>

lemma splitFirst_toISOString:
  "splitFirst 84 (toISOString t) = dateString (civilFromDays (t div msPerDay))"
proof -
  have "list_all (\<lambda>c. c \<noteq> 84) (dateString (civilFromDays (t div msPerDay)))"
    using dateString_chars[of "civilFromDays (t div msPerDay)"] sign_or_digit
    by (auto simp: list_all_iff)
  then show ?thesis
    by (simp add: splitFirst_def toISOString_def takeWhile_append2 list_all_iff)
qed

lemma normalizeDate_valid:
  "newDate rt v = Some t \<Longrightarrow>
     normalizeDate rt v = Inr (dateString (civilFromDays (t div msPerDay)))"
  by (simp add: normalizeDate_def splitFirst_toISOString)

lemma normalizeDate_invalid: "newDate rt v = None \<Longrightarrow> normalizeDate rt v = Inl InvalidEventDate"
  by (simp add: normalizeDate_def)

lemma newDate_example: "newDate rt (js ''2024-03-05T10:00:00Z'') = Some 1709632800000"
  by (simp add: parse_eval)

lemma normalizeDate_example:
  "normalizeDate rt (js ''2024-03-05T10:00:00Z'') = Inr (js ''2024-03-05'')"
  unfolding normalizeDate_def newDate_example by (simp add: format_eval)

lemma newDate_year_10000: "newDate rt (js ''+010000-01-01'') = Some 253402300800000"
  by (simp add: parse_eval)

lemma zeroPad_4:
  assumes "0 \<le> y" "y \<le> 9999"
  shows "length (zeroPad 4 y) = 4 \<and> list_all isDigit (zeroPad 4 y)"
proof -
  from assms have "length (decimal (nat y)) \<le> 4" by (intro decimal_length) simp
  moreover have "isDigit 48" by (simp add: isDigit_def)
  moreover have "list_all isDigit (decimal (nat y))" by (rule decimal_digits)
  ultimately show ?thesis
    using assms by (auto simp: zeroPad_def padStart_def toString_def list_all_iff)
qed

lemma twoDigits_shape: "0 \<le> n \<Longrightarrow> n \<le> 99 \<Longrightarrow> list_all isDigit (twoDigits n)"
  unfolding twoDigits_def isDigit_def by simp arith

text \<open>
  The date part has the form \<open>YYYY-MM-DD\<close> for the years 0 to 9999 and for no other
  year.
\<close>

lemma dateString_shape:
  assumes "1 \<le> m" "m \<le> 12" "1 \<le> d" "d \<le> 31"
  shows "isoDateShape (dateString (y, m, d)) \<longleftrightarrow> 0 \<le> y \<and> y \<le> 9999"
proof (cases "0 \<le> y \<and> y \<le> 9999")
  case True
  then obtain y1 y2 y3 y4 where y: "zeroPad 4 y = [y1, y2, y3, y4]"
    "list_all isDigit [y1, y2, y3, y4]"
    using zeroPad_4[of y] by (auto simp: length_Suc_conv numeral_eq_Suc)
  have m: "zeroPad 2 m = twoDigits m" "list_all isDigit (twoDigits m)"
    using assms(1,2) by (simp_all add: zeroPad_def padStart_toString twoDigits_shape)
  have d: "zeroPad 2 d = twoDigits d" "list_all isDigit (twoDigits d)"
    using assms(3,4) by (simp_all add: zeroPad_def padStart_toString twoDigits_shape)
  from True y m d show ?thesis
    by (simp add: dateString_def yearString_def isoDateShape_def twoDigits_def)
next
  case False
  then have "\<exists>r. dateString (y, m, d) = 45 # r \<or> dateString (y, m, d) = 43 # r"
    by (simp add: dateString_def yearString_def)
  then have "\<not> isoDateShape (dateString (y, m, d))"
    by (auto simp: isoDateShape_def isDigit_def split: list.splits)
  with False show ?thesis by simp
qed

text \<open>
  A day of the era, by the century, the run of four years, the year of the run and the
  day of the year it falls in.
\<close>

lemma eraDay_parts:
  assumes "0 \<le> doe" "doe \<le> 146096"
  obtains c q r k :: int where
    "doe = 36524 * c + 1461 * q + 365 * r + k"
    "0 \<le> c" "c \<le> 3" "0 \<le> q" "q \<le> 24" "0 \<le> r" "r \<le> 3" "0 \<le> k" "k \<le> 365"
    "k = 365 \<longrightarrow> r = 3"
    "q = 24 \<and> r = 3 \<and> k = 365 \<longrightarrow> c = 3"
proof -
  define c where "c = min 3 (doe div 36524)"
  define r1 where "r1 = doe - 36524 * c"
  define q where "q = r1 div 1461"
  define r2 where "r2 = r1 mod 1461"
  define r where "r = min 3 (r2 div 365)"
  define k where "k = r2 - 365 * r"
  have c: "0 \<le> c" "c \<le> 3" using assms unfolding c_def by simp_all
  have r1: "0 \<le> r1" "r1 \<le> 36524" "c < 3 \<longrightarrow> r1 < 36524"
    using assms unfolding r1_def c_def by (simp_all add: min_def) arith+
  have q: "0 \<le> q" "q \<le> 24" using r1 unfolding q_def by simp_all
  have r2: "0 \<le> r2" "r2 \<le> 1460" "r1 = 1461 * q + r2"
    unfolding r2_def q_def by simp_all
  have r: "0 \<le> r" "r \<le> 3" using r2 unfolding r_def by simp_all
  have k: "0 \<le> k" "k \<le> 365" "k = 365 \<longrightarrow> r = 3"
    using r2 unfolding k_def r_def by (simp_all add: min_def) arith+
  have "doe = 36524 * c + 1461 * q + 365 * r + k"
    using r2(3) unfolding k_def r1_def by simp
  moreover have "q = 24 \<and> r = 3 \<and> k = 365 \<longrightarrow> c = 3"
    using r1(3) r2(3) c unfolding k_def by auto
  ultimately show ?thesis using that c q r k by blast
qed

lemma eraYear_parts:
  assumes "doe = 36524 * c + 1461 * q + 365 * r + k"
    "0 \<le> c" "c \<le> 3" "0 \<le> q" "q \<le> 24" "0 \<le> r" "r \<le> 3" "0 \<le> k" "k \<le> 365"
    "k = 365 \<longrightarrow> r = 3"
    "q = 24 \<and> r = 3 \<and> k = 365 \<longrightarrow> c = 3"
  shows "eraYear doe = 100 * c + 4 * q + r"
proof -
  define R where "R = 24 * c + q + 365 * r + k"
  define e where "e = R div 1460"
  have R: "0 \<le> R" "R < 2920" using assms unfolding R_def by simp_all
  have e0: "0 \<le> e" using R unfolding e_def by simp
  have e1: "e \<le> 1" using R unfolding e_def by simp
  have e2: "e = 1 \<longrightarrow> 1460 \<le> R" unfolding e_def by arith
  have e3: "1460 \<le> R \<longrightarrow> e = 1" using R unfolding e_def by arith
  have "doe = (25 * c + q) * 1460 + R" using assms(1) unfolding R_def by simp
  then have d1460: "doe div 1460 = 25 * c + q + e"
    unfolding e_def by simp
  have b: "doe div 36524 - doe div 146096 = c"
  proof (cases "q = 24 \<and> r = 3 \<and> k = 365")
    case True
    with assms have "doe = 146096" by simp
    with True assms show ?thesis by simp
  next
    case False
    with assms have "1461 * q + 365 * r + k < 36524" by auto
    with assms have "doe = c * 36524 + (1461 * q + 365 * r + k)"
      "0 \<le> 1461 * q + 365 * r + k" "1461 * q + 365 * r + k < 36524"
      by simp_all
    then have "doe div 36524 = c" by simp
    moreover from assms False have "doe < 146096" by auto
    moreover from assms have "0 \<le> doe" by simp
    ultimately show ?thesis by simp
  qed
  have ke: "0 \<le> k - e" "k - e < 365"
    using assms e0 e1 e2 e3 unfolding R_def by auto
  have "doe - doe div 1460 + doe div 36524 - doe div 146096 =
      (100 * c + 4 * q + r) * 365 + (k - e)"
    using b d1460 assms(1) by simp
  then have "eraYear doe = (100 * c + 4 * q + r) + (k - e) div 365"
    unfolding eraYear_def by simp
  with ke show ?thesis by simp
qed

lemma yearDay_bounds:
  assumes "0 \<le> doe" "doe \<le> 146096"
  shows "0 \<le> yearDay doe \<and> yearDay doe \<le> 365"
proof -
  from assms obtain c q r k :: int where p:
    "doe = 36524 * c + 1461 * q + 365 * r + k"
    "0 \<le> c" "c \<le> 3" "0 \<le> q" "q \<le> 24" "0 \<le> r" "r \<le> 3" "0 \<le> k" "k \<le> 365"
    "k = 365 \<longrightarrow> r = 3"
    "q = 24 \<and> r = 3 \<and> k = 365 \<longrightarrow> c = 3"
    by (rule eraDay_parts)
  then have y: "eraYear doe = 100 * c + 4 * q + r" by (rule eraYear_parts)
  have "(100 * c + 4 * q + r) div 4 = 25 * c + q"
    using p(6,7) by arith
  moreover have "(100 * c + 4 * q + r) div 100 = c"
    using p(4-7) by arith
  ultimately have "yearDay doe = k"
    unfolding yearDay_def y using p(1) by simp
  with p(8,9) show ?thesis by simp
qed

lemma monthIndex_bounds:
  "0 \<le> doy \<Longrightarrow> doy \<le> 365 \<Longrightarrow> 0 \<le> monthIndex doy \<and> monthIndex doy \<le> 11"
  unfolding monthIndex_def by arith

lemma dayOfMonth_bounds:
  "0 \<le> doy \<Longrightarrow> doy \<le> 365 \<Longrightarrow>
     1 \<le> doy - (153 * monthIndex doy + 2) div 5 + 1 \<and>
     doy - (153 * monthIndex doy + 2) div 5 + 1 \<le> 31"
  unfolding monthIndex_def by arith

text \<open>Every day number has a month from 1 to 12 and a day from 1 to 31.\<close>

lemma civil_bounds:
  "1 \<le> civilMonth z \<and> civilMonth z \<le> 12 \<and> 1 \<le> civilDay z \<and> civilDay z \<le> 31"
proof -
  have "0 \<le> eraDay z" "eraDay z \<le> 146096"
    unfolding eraDay_def by simp_all
  then have doy: "0 \<le> yearDay (eraDay z)" "yearDay (eraDay z) \<le> 365"
    using yearDay_bounds by simp_all
  from monthIndex_bounds[OF doy] dayOfMonth_bounds[OF doy]
  show ?thesis unfolding civilMonth_def civilDay_def by simp
qed

text \<open>
  What \<open>normalizeDate\<close> returns for a valid date: the UTC date of its time value, which
  is of the form \<open>YYYY-MM-DD\<close> exactly when the year is from 0 to 9999.
\<close>

lemma normalizeDate_shape:
  assumes "newDate rt v = Some t"
  shows "\<exists>r. normalizeDate rt v = Inr r \<and> r = dateString (civilFromDays (t div msPerDay)) \<and>
     (isoDateShape r \<longleftrightarrow> 0 \<le> civilYear (t div msPerDay) \<and> civilYear (t div msPerDay) \<le> 9999)"
proof -
  let ?z = "t div msPerDay"
  have "isoDateShape (dateString (civilYear ?z, civilMonth ?z, civilDay ?z)) \<longleftrightarrow>
      0 \<le> civilYear ?z \<and> civilYear ?z \<le> 9999"
    using civil_bounds[of ?z] by (intro dateString_shape) simp_all
  with assms show ?thesis
    by (simp add: normalizeDate_valid civilFromDays_def)
qed

lemma year_parts:
  fixes yoe :: int
  assumes "0 \<le> yoe" "yoe \<le> 399"
  shows "yoe = 100 * (yoe div 100) + 4 * (yoe mod 100 div 4) + yoe mod 4"
    "0 \<le> yoe div 100" "yoe div 100 \<le> 3" "0 \<le> yoe mod 100 div 4" "yoe mod 100 div 4 \<le> 24"
    "0 \<le> yoe mod 4" "yoe mod 4 \<le> 3"
proof -
  have "yoe mod 100 mod 4 = yoe mod 4"
    by (simp add: mod_mod_cancel)
  then have "yoe mod 100 = 4 * (yoe mod 100 div 4) + yoe mod 4"
    using mult_div_mod_eq[of 4 "yoe mod 100"] by simp
  moreover have "yoe = 100 * (yoe div 100) + yoe mod 100"
    by simp
  ultimately show "yoe = 100 * (yoe div 100) + 4 * (yoe mod 100 div 4) + yoe mod 4"
    by linarith
  show "0 \<le> yoe div 100" "yoe div 100 \<le> 3" using assms by simp_all
  have "0 \<le> yoe mod 100" "yoe mod 100 \<le> 99" by simp_all
  then show "0 \<le> yoe mod 100 div 4" "yoe mod 100 div 4 \<le> 24" by simp_all
  show "0 \<le> yoe mod 4" "yoe mod 4 \<le> 3" by simp_all
qed

lemma daysBeforeMarchYear_parts:
  assumes "0 \<le> c" "c \<le> 3" "0 \<le> q" "q \<le> 24" "0 \<le> r" "r \<le> 3"
  shows "daysBeforeMarchYear (400 * era + (100 * c + 4 * q + r)) =
     146097 * era + (36524 * c + 1461 * q + 365 * r)"
proof -
  let ?y = "400 * era + (100 * c + 4 * q + r)"
  have "?y = (100 * era + 25 * c + q) * 4 + r" by simp
  then have "?y div 4 = (100 * era + 25 * c + q) + r div 4"
    by (metis div_mult_self3 zero_neq_numeral)
  with assms have d4: "?y div 4 = 100 * era + 25 * c + q" by simp
  have "?y = (4 * era + c) * 100 + (4 * q + r)" by simp
  then have "?y div 100 = (4 * era + c) + (4 * q + r) div 100"
    by (metis div_mult_self3 zero_neq_numeral)
  with assms have d100: "?y div 100 = 4 * era + c" by simp
  have "?y = era * 400 + (100 * c + 4 * q + r)" by simp
  then have "?y div 400 = era + (100 * c + 4 * q + r) div 400"
    by (metis div_mult_self3 zero_neq_numeral)
  with assms have d400: "?y div 400 = era" by simp
  show ?thesis
    unfolding daysBeforeMarchYear_def d4 d100 d400 by simp
qed

lemma leap_parts:
  assumes "isLeapYear (400 * era + (100 * c + 4 * q + r) + 1)"
    and "0 \<le> c" "c \<le> 3" "0 \<le> q" "q \<le> 24" "0 \<le> r" "r \<le> 3"
  shows "r = 3 \<and> (q = 24 \<longrightarrow> c = 3)"
proof -
  let ?y = "400 * era + (100 * c + 4 * q + r) + 1"
  have "?y = (100 * era + 25 * c + q) * 4 + (r + 1)" by simp
  then have "?y mod 4 = (r + 1) mod 4"
    by (metis mod_mult_self3)
  moreover from assms(1) have "?y mod 4 = 0" unfolding isLeapYear_def by (rule conjunct1)
  ultimately have "(r + 1) mod 4 = 0" by simp
  with assms(6,7) have r: "r = 3" by arith
  have "c = 3" if "q = 24"
  proof -
    from r that have "?y = (4 * era + c + 1) * 100 + 0" by simp
    then have "?y mod 100 = 0" by (metis mod_mult_self3 mod_0)
    with assms(1) have "?y mod 400 = 0" unfolding isLeapYear_def by simp
    moreover from r that have "?y = era * 400 + (100 * (c + 1))" by simp
    then have "?y mod 400 = (100 * (c + 1)) mod 400" by (metis mod_mult_self3)
    ultimately have "(100 * (c + 1)) mod 400 = 0" by simp
    with assms(2,3) show ?thesis by arith
  qed
  with r show ?thesis by simp
qed
lemma yearDay_parts:
  assumes "doe = 36524 * c + 1461 * q + 365 * r + k"
    "0 \<le> c" "c \<le> 3" "0 \<le> q" "q \<le> 24" "0 \<le> r" "r \<le> 3" "0 \<le> k" "k \<le> 365"
    "k = 365 \<longrightarrow> r = 3"
    "q = 24 \<and> r = 3 \<and> k = 365 \<longrightarrow> c = 3"
  shows "yearDay doe = k"
proof -
  from assms have y: "eraYear doe = 100 * c + 4 * q + r" by (rule eraYear_parts)
  have "(100 * c + 4 * q + r) div 4 = 25 * c + q"
    using assms(6,7) by arith
  moreover have "(100 * c + 4 * q + r) div 100 = c"
    using assms(4-7) by arith
  ultimately show ?thesis
    unfolding yearDay_def y using assms(1) by simp
qed

text \<open>The two directions agree: the date of the day number of a date is that date.\<close>

lemma month_day_roundtrip:
  assumes "1 \<le> m" "m \<le> 12" "1 \<le> d" "d \<le> daysInMonth y m"
  shows "monthIndex (dayOfMarchYear m d) = (m + 9) mod 12"
    and "dayOfMarchYear m d - (153 * ((m + 9) mod 12) + 2) div 5 + 1 = d"
    and "0 \<le> dayOfMarchYear m d" "dayOfMarchYear m d \<le> 365"
    and "dayOfMarchYear m d = 365 \<longrightarrow> m = 2 \<and> isLeapYear y"
proof -
  from assms(1,2) have "m = 1 \<or> m = 2 \<or> m = 3 \<or> m = 4 \<or> m = 5 \<or> m = 6 \<or> m = 7 \<or>
      m = 8 \<or> m = 9 \<or> m = 10 \<or> m = 11 \<or> m = 12"
    by arith
  then have "monthIndex (dayOfMarchYear m d) = (m + 9) mod 12 \<and>
      dayOfMarchYear m d - (153 * ((m + 9) mod 12) + 2) div 5 + 1 = d \<and>
      0 \<le> dayOfMarchYear m d \<and> dayOfMarchYear m d \<le> 365 \<and>
      (dayOfMarchYear m d = 365 \<longrightarrow> m = 2 \<and> isLeapYear y)"
    using assms(3,4)
    by (elim disjE)
      (simp_all add: monthIndex_def dayOfMarchYear_def daysInMonth_def split: if_splits)
  then show "monthIndex (dayOfMarchYear m d) = (m + 9) mod 12"
    and "dayOfMarchYear m d - (153 * ((m + 9) mod 12) + 2) div 5 + 1 = d"
    and "0 \<le> dayOfMarchYear m d" "dayOfMarchYear m d \<le> 365"
    and "dayOfMarchYear m d = 365 \<longrightarrow> m = 2 \<and> isLeapYear y"
    by simp_all
qed

lemma civil_roundtrip:
  assumes "1 \<le> m" "m \<le> 12" "1 \<le> d" "d \<le> daysInMonth y m"
  shows "civilFromDays (daysFromCivil y m d) = (y, m, d)"
proof -
  define y' where "y' = marchYear y m"
  define era where "era = y' div 400"
  define yoe where "yoe = y' mod 400"
  define c where "c = yoe div 100"
  define q where "q = yoe mod 100 div 4"
  define r where "r = yoe mod 4"
  define k where "k = dayOfMarchYear m d"
  define z where "z = daysFromCivil y m d"
  note md = month_day_roundtrip[OF assms]
  have yoe: "0 \<le> yoe" "yoe \<le> 399"
    unfolding yoe_def by simp_all
  have y': "y' = 400 * era + yoe"
    unfolding yoe_def era_def by simp
  note parts = year_parts[OF yoe, folded c_def q_def r_def]
  have k: "0 \<le> k" "k \<le> 365" using md(3,4) unfolding k_def by simp_all
  have leap: "r = 3 \<and> (q = 24 \<longrightarrow> c = 3)" if "k = 365"
  proof -
    from that md(5) have m: "m = 2" and l: "isLeapYear y" unfolding k_def by simp_all
    from m have "y = y' + 1" unfolding y'_def marchYear_def by simp
    with y' parts(1) have "y = 400 * era + (100 * c + 4 * q + r) + 1" by simp
    with l show ?thesis using parts(2-7) by (intro leap_parts) simp_all
  qed
  define doe where "doe = 36524 * c + 1461 * q + 365 * r + k"
  have "36524 * c + 1461 * q + 365 * r + k \<le> 146096"
  proof (cases "k = 365")
    case True
    with parts(3,5,7) show ?thesis by simp
  next
    case False
    with k parts(3,5,7) show ?thesis by simp
  qed
  with parts k have doe: "0 \<le> doe" "doe \<le> 146096"
    unfolding doe_def by simp_all
  have "daysBeforeMarchYear y' = 146097 * era + (36524 * c + 1461 * q + 365 * r)"
    using daysBeforeMarchYear_parts[OF parts(2-7), of era] y' parts(1) by simp
  then have z: "z + 719468 = era * 146097 + doe"
    unfolding z_def daysFromCivil_def doe_def k_def y'_def by simp
  from doe have ed: "eraDay z = doe" and eq: "(z + 719468) div 146097 = era"
    unfolding eraDay_def z by simp_all
  have p: "doe = 36524 * c + 1461 * q + 365 * r + k" by (simp add: doe_def)
  have p10: "k = 365 \<longrightarrow> r = 3" and p11: "q = 24 \<and> r = 3 \<and> k = 365 \<longrightarrow> c = 3"
    using leap by simp_all
  have ey: "eraYear doe = yoe"
    using eraYear_parts[OF p parts(2-7) k p10 p11] parts(1) by simp
  have yd: "yearDay doe = k"
    by (rule yearDay_parts[OF p parts(2-7) k p10 p11])
  have mi: "monthIndex k = (m + 9) mod 12" using md(1) unfolding k_def .
  have "(m + 9) mod 12 = (if m \<le> 2 then m + 9 else m - 3)"
    using assms(1,2) by presburger
  then have cm: "civilMonth z = m"
    unfolding civilMonth_def ed yd mi using assms(1,2) by simp
  have cd: "civilDay z = d"
    unfolding civilDay_def ed yd mi using md(2) unfolding k_def by simp
  have cy: "civilYear z = y"
    unfolding civilYear_def ed ey eq cm using y' unfolding y'_def marchYear_def
    by (simp split: if_splits)
  show ?thesis
    unfolding civilFromDays_def z_def[symmetric] cm cd cy ..
qed

lemma number_2: "number 2 s = Some (n, r) \<Longrightarrow> 0 \<le> n"
  by (auto simp: number_def digits_Some NumberOfDigits_nonneg split: option.splits)

lemma parseTimeUTC_range: "parseTimeUTC s = Some ms \<Longrightarrow> 0 \<le> ms \<and> ms < msPerDay"
  by (auto simp: parseTimeUTC_def msPerDay_def split: if_splits Option.bind_splits dest!: number_2)

text \<open>
  A string of the forms \<open>YYYY-MM-DD\<close> and \<open>YYYY-MM-DDTHH:mm:ssZ\<close> is parsed to a time of
  the day it names, and that day is what \<open>normalizeDate\<close> gives back.
\<close>

lemma dateParseUTC_day:
  assumes "dateParseUTC s = Some t"
  obtains y m d where "1 \<le> m" "m \<le> 12" "1 \<le> d" "d \<le> daysInMonth y m"
    "t div msPerDay = daysFromCivil y m d"
proof -
  from assms obtain y m d ms where f: "1 \<le> m" "m \<le> 12" "1 \<le> d" "d \<le> daysInMonth y m"
    "0 \<le> ms \<and> ms < msPerDay" "t = daysFromCivil y m d * msPerDay + ms"
    by (auto simp: dateParseUTC_def split: if_splits Option.bind_splits dest!: parseTimeUTC_range)
  from f(5,6) have "t div msPerDay = daysFromCivil y m d"
    by (simp add: msPerDay_def)
  with f(1-4) show ?thesis by (rule that)
qed

lemma normalizeDate_written_day:
  assumes "dateParseUTC s = Some t" "\<bar>t\<bar> \<le> 8640000000000000"
  shows "\<exists>y m d. 1 \<le> m \<and> m \<le> 12 \<and> 1 \<le> d \<and> d \<le> daysInMonth y m \<and>
     t div msPerDay = daysFromCivil y m d \<and> normalizeDate rt s = Inr (dateString (y, m, d))"
proof -
  from assms(1) obtain y m d where f: "1 \<le> m" "m \<le> 12" "1 \<le> d" "d \<le> daysInMonth y m"
    "t div msPerDay = daysFromCivil y m d"
    by (rule dateParseUTC_day)
  from assms have "newDate rt s = Some t"
    by (simp add: newDate_def dateParse_def timeClip_def)
  then have "normalizeDate rt s = Inr (dateString (civilFromDays (t div msPerDay)))"
    by (rule normalizeDate_valid)
  with f show ?thesis by (auto simp: civil_roundtrip)
qed

text \<open>
  C4 at the date \<open>+010000-01-01\<close>, a date string of the ECMAScript format: it is
  parsed, and what is returned is not of the form \<open>YYYY-MM-DD\<close>.
\<close>

theorem normalizeDate_year_10000:
  "newDate rt (js ''+010000-01-01'') = Some 253402300800000 \<and>
   normalizeDate rt (js ''+010000-01-01'') = Inr (js ''+010000-01-01'') \<and>
   \<not> isoDateShape (js ''+010000-01-01'')"
proof (intro conjI)
  show "newDate rt (js ''+010000-01-01'') = Some 253402300800000"
    by (rule newDate_year_10000)
  show "normalizeDate rt (js ''+010000-01-01'') = Inr (js ''+010000-01-01'')"
    unfolding normalizeDate_def newDate_year_10000 by (simp add: format_eval)
  show "\<not> isoDateShape (js ''+010000-01-01'')"
    by (simp add: isoDateShape_def js_def)
qed

end
